theory Spec2Isabelle
  imports Main "HOL-Library.AList"
begin

section \<open>JavaScript values and the primitives the extractor uses\<close>

text \<open>
  The extractor of \<^verbatim>\<open>src/constraint.js\<close> is duck-typed: it walks whatever object
  graph the parser returns and reads fields by name. The embedding therefore keeps the
  parser's output as a generic JavaScript value. An object is the list of its own
  enumerable properties in insertion order, an array the list of its elements, a regular
  expression (the value of a regular expression literal) an object without enumerable
  properties.

  Boundaries of the model:
  \<^item> a character is a UTF-16 code unit below 256, so of the line terminators only LF
    and CR occur, and of the white space only the characters below 256;
  \<^item> a number is NaN, an infinity, or an integer that is a double. The numbers the
    extractor computes, \<^verbatim>\<open>parseInt(text) - 1\<close> and \<^verbatim>\<open>parseInt(text) + 1\<close>, are such numbers,
    rounded as the source's arithmetic rounds them. The numbers it reads from the tree
    are the ranges, which are such numbers too, and the value of a literal that is the
    first argument of a call, in the last recognizer, which only prints it: a fraction
    there is outside the model, and a number prints as its decimal digits, which is how
    JavaScript prints an integer below \<open>2 ^ 53\<close> (it prints a larger one rounded to the
    digits that tell it from its neighbours, with an exponent from \<open>10 ^ 21\<close> on);
  \<^item> objects have no identity: \<open>===\<close> and \<^verbatim>\<open>_.includes\<close> never find an object, an array or a
    regular expression equal to another value, the answer for two distinct objects;
  \<^item> property keys of the syntax tree are plain strings kept in insertion order (no
    integer-like keys, no \<^verbatim>\<open>__proto__\<close>), and a property that is missing reads as
    \<^verbatim>\<open>undefined\<close> (none of the names the source reads is inherited from a prototype).
\<close>

datatype jsval =
    JUndefined
  | JNull
  | JBool bool
  | JNum int
  | JNaN
  | JInfinity
  | JNegInfinity
  | JStr string
  | JRegExp string
  | JArr "jsval list"
  | JObj "(string \<times> jsval) list"

text \<open>How a run can end without a Result: with an exception of the extractor (a TypeError),
  of the file system or of the parser, or with the death of the process when its memory is
  used up, which no caller can catch.\<close>

datatype error = TypeError | FileError | SyntaxError | OutOfMemory

definition and_then :: "error + 'a \<Rightarrow> ('a \<Rightarrow> error + 'b) \<Rightarrow> error + 'b" where
  "and_then m f = (case m of Inl e \<Rightarrow> Inl e | Inr x \<Rightarrow> f x)"

text \<open>\<^verbatim>\<open>v.k\<close>: reading a property of \<^verbatim>\<open>undefined\<close> or \<^verbatim>\<open>null\<close> throws a TypeError; a
  missing property reads as \<^verbatim>\<open>undefined\<close>.\<close>

fun get_prop :: "jsval \<Rightarrow> string \<Rightarrow> error + jsval" where
  "get_prop JUndefined k = Inl TypeError"
| "get_prop JNull k = Inl TypeError"
| "get_prop (JObj fs) k = Inr (case map_of fs k of Some v \<Rightarrow> v | None \<Rightarrow> JUndefined)"
| "get_prop v k = Inr JUndefined"

text \<open>\<^verbatim>\<open>v.k1.k2...\<close>, left to right.\<close>

fun get_path :: "jsval \<Rightarrow> string list \<Rightarrow> error + jsval" where
  "get_path v [] = Inr v"
| "get_path v (k # ks) = and_then (get_prop v k) (\<lambda>w. get_path w ks)"

text \<open>lodash \<^verbatim>\<open>_.get(object, 'a.b')\<close>: stops with \<^verbatim>\<open>undefined\<close> instead of throwing.\<close>

fun lodash_get :: "jsval \<Rightarrow> string list \<Rightarrow> jsval" where
  "lodash_get v [] = v"
| "lodash_get v (k # ks) =
     (case get_prop v k of Inl e \<Rightarrow> JUndefined | Inr w \<Rightarrow> lodash_get w ks)"

fun is_object :: "jsval \<Rightarrow> bool" where
  "is_object (JObj fs) = True"
| "is_object (JArr xs) = True"
| "is_object (JRegExp r) = True"
| "is_object v = False"

fun truthy :: "jsval \<Rightarrow> bool" where
  "truthy JUndefined = False"
| "truthy JNull = False"
| "truthy (JBool b) = b"
| "truthy (JNum n) = (n \<noteq> 0)"
| "truthy JNaN = False"
| "truthy (JStr s) = (s \<noteq> [])"
| "truthy v = True"

text \<open>\<^verbatim>\<open>a === b\<close>.\<close>

definition strict_eq :: "jsval \<Rightarrow> jsval \<Rightarrow> bool" where
  "strict_eq a b = (a = b \<and> \<not> is_object a \<and> a \<noteq> JNaN)"

text \<open>lodash \<^verbatim>\<open>_.includes(array, value)\<close> compares with SameValueZero.\<close>

definition lodash_includes :: "jsval list \<Rightarrow> jsval \<Rightarrow> bool" where
  "lodash_includes xs v = list_ex (\<lambda>x. x = v \<and> \<not> is_object x) xs"

subsection \<open>Strings\<close>

definition digit_char :: "nat \<Rightarrow> char" where
  "digit_char d = ''0123456789'' ! d"

function dec :: "nat \<Rightarrow> string" where
  "dec n = (if n < 10 then [digit_char n] else dec (n div 10) @ [digit_char (n mod 10)])"
  by pat_completeness auto
termination
  by (relation "measure id") auto

declare dec.simps [simp del]

text \<open>\<^verbatim>\<open>v[i]\<close> for an index \<open>i\<close>; the source reads \<^verbatim>\<open>[0]\<close> and \<^verbatim>\<open>[1]\<close>.\<close>

fun get_index :: "jsval \<Rightarrow> nat \<Rightarrow> error + jsval" where
  "get_index JUndefined i = Inl TypeError"
| "get_index JNull i = Inl TypeError"
| "get_index (JArr xs) i = Inr (if i < length xs then xs ! i else JUndefined)"
| "get_index (JStr s) i = Inr (if i < length s then JStr [s ! i] else JUndefined)"
| "get_index (JObj fs) i = Inr (case map_of fs (dec i) of Some v \<Rightarrow> v | None \<Rightarrow> JUndefined)"
| "get_index v i = Inr JUndefined"

definition join_comma :: "string list \<Rightarrow> string" where
  "join_comma xs = concat (case xs of [] \<Rightarrow> [] | y # ys \<Rightarrow> y # map (\<lambda>z. '','' @ z) ys)"

text \<open>String conversion, as done by a template literal, by \<^verbatim>\<open>+=\<close> on a string and by
  a property key.\<close>

fun js_toString :: "jsval \<Rightarrow> string" where
  "js_toString JUndefined = ''undefined''"
| "js_toString JNull = ''null''"
| "js_toString (JBool b) = (if b then ''true'' else ''false'')"
| "js_toString (JNum n) = (if n < 0 then ''-'' @ dec (nat (- n)) else dec (nat n))"
| "js_toString JNaN = ''NaN''"
| "js_toString JInfinity = ''Infinity''"
| "js_toString JNegInfinity = ''-Infinity''"
| "js_toString (JStr s) = s"
| "js_toString (JRegExp r) = r"
| "js_toString (JArr xs) =
     join_comma (map (\<lambda>x. if x = JUndefined \<or> x = JNull then [] else js_toString x) xs)"
| "js_toString (JObj fs) = ''[object Object]''"

text \<open>\<^verbatim>\<open>s.substring(a, b)\<close> with both arguments already integers.\<close>

definition substring :: "string \<Rightarrow> int \<Rightarrow> int \<Rightarrow> string" where
  "substring s a b =
     (let len = int (length s);
          finalStart = min (max a 0) len;
          finalEnd = min (max b 0) len;
          from = min finalStart finalEnd;
          to = max finalStart finalEnd
      in take (nat (to - from)) (drop (nat from) s))"

text \<open>The integer a \<^verbatim>\<open>substring\<close> argument converts to, for a string of length \<open>len\<close>
  (\<^verbatim>\<open>substring\<close> clamps its arguments to the length, so this stands for \<open>+\<infinity>\<close>). The parser's
  ranges are numbers; \<^verbatim>\<open>undefined\<close>, \<^verbatim>\<open>null\<close> and NaN convert to 0, and so does, in this model,
  every value that is not a number or a boolean.\<close>

fun to_integer :: "nat \<Rightarrow> jsval \<Rightarrow> int" where
  "to_integer len (JNum n) = n"
| "to_integer len (JBool b) = (if b then 1 else 0)"
| "to_integer len JInfinity = int len"
| "to_integer len v = 0"

text \<open>\<^verbatim>\<open>buf.substring(node.range[0], node.range[1])\<close>; an \<^verbatim>\<open>undefined\<close> end means the
  end of the string.\<close>

definition range_text :: "string \<Rightarrow> jsval \<Rightarrow> error + string" where
  "range_text buf node =
     and_then (get_prop node ''range'') (\<lambda>r.
     and_then (get_index r 0) (\<lambda>a.
     and_then (get_index r 1) (\<lambda>b.
       Inr (substring buf (to_integer (length buf) a)
              (if b = JUndefined then int (length buf) else to_integer (length buf) b)))))"

definition is_quote :: "char \<Rightarrow> bool" where
  "is_quote c = (c = CHR 0x27 \<or> c = CHR 0x22)"

definition line_terminator :: "char \<Rightarrow> bool" where
  "line_terminator c = (c = CHR 0x0A \<or> c = CHR 0x0D)"

text \<open>The capture group of \<^verbatim>\<open>rightHand.match(/^['"](.*)['"]$/)\<close>, \<open>None\<close> for \<^verbatim>\<open>null\<close>:
  the text starts and ends with a quote character and the dot matches no line
  terminator.\<close>

definition quoted_match :: "string \<Rightarrow> string option" where
  "quoted_match s =
     (if 2 \<le> length s \<and> is_quote (hd s) \<and> is_quote (last s)
         \<and> list_all (\<lambda>c. \<not> line_terminator c) (butlast (tl s))
      then Some (butlast (tl s)) else None)"

definition js_whitespace :: "char \<Rightarrow> bool" where
  "js_whitespace c = (c \<in> set [CHR 0x09, CHR 0x0A, CHR 0x0B, CHR 0x0C, CHR 0x0D, CHR 0x20, CHR 0xA0])"

definition digit_val :: "char \<Rightarrow> nat option" where
  "digit_val c = map_of (zip ''0123456789abcdef'' [0 ..< 16] @ zip ''ABCDEF'' [10 ..< 16]) c"

definition radix_digit :: "nat \<Rightarrow> char \<Rightarrow> bool" where
  "radix_digit r c = (case digit_val c of None \<Rightarrow> False | Some d \<Rightarrow> d < r)"

definition digits_value :: "nat \<Rightarrow> string \<Rightarrow> int" where
  "digits_value r ds = foldl (\<lambda>acc c. acc * int r + int (the (digit_val c))) 0 ds"

subsection \<open>Numbers\<close>

text \<open>The number of binary digits of a positive integer.\<close>

function bit_length :: "int \<Rightarrow> nat" where
  "bit_length n = (if n \<le> 0 then 0 else Suc (bit_length (n div 2)))"
  by pat_completeness auto
termination
  by (relation "measure nat") auto

declare bit_length.simps [simp del]

text \<open>The JavaScript number for a mathematical integer: the nearest double, the one with
  the even mantissa when two are equally near, and an infinity from \<open>2 ^ 1024 - 2 ^ 970\<close>
  on. An integer of at most 53 binary digits is a double.\<close>

definition round_to_double :: "int \<Rightarrow> jsval" where
  "round_to_double i =
     (let n = \<bar>i\<bar>; b = bit_length n
      in if b \<le> 53 then JNum i
         else
           (let e = b - 53;
                q = n div 2 ^ e;
                r = n mod 2 ^ e;
                half = 2 ^ (e - 1);
                m = (if half < r \<or> (r = half \<and> odd q) then q + 1 else q) * 2 ^ e
            in if 2 ^ 1024 \<le> m then (if i < 0 then JNegInfinity else JInfinity)
               else JNum (if i < 0 then - m else m)))"

text \<open>The digits \<^verbatim>\<open>parseInt(s)\<close> reads without a radix, as a mathematical integer: leading
  white space, a sign, a \<^verbatim>\<open>0x\<close> prefix for base 16, then the longest run of digits; \<open>None\<close>
  when there is no digit.\<close>

definition parse_integer :: "string \<Rightarrow> int option" where
  "parse_integer s =
     (let s1 = dropWhile js_whitespace s;
          neg = (s1 \<noteq> [] \<and> hd s1 = CHR ''-'');
          s2 = (if s1 \<noteq> [] \<and> (hd s1 = CHR ''-'' \<or> hd s1 = CHR ''+'') then tl s1 else s1);
          hex = (take 2 s2 = ''0x'' \<or> take 2 s2 = ''0X'');
          r = (if hex then 16 else 10);
          s3 = (if hex then drop 2 s2 else s2);
          ds = takeWhile (radix_digit r) s3
      in if ds = [] then None
         else Some ((if neg then - 1 else 1) * digits_value r ds))"

text \<open>\<^verbatim>\<open>parseInt(s)\<close>: NaN when there is no digit, else the number for the integer read
  (rounded as V8 rounds it, whatever the number of digits).\<close>

definition parseInt :: "string \<Rightarrow> jsval" where
  "parseInt s = (case parse_integer s of None \<Rightarrow> JNaN | Some n \<Rightarrow> round_to_double n)"

text \<open>\<^verbatim>\<open>x + k\<close> for a number \<open>x\<close> and an integer \<open>k\<close> that is a double: the exact sum,
  rounded.\<close>

fun number_plus :: "jsval \<Rightarrow> int \<Rightarrow> jsval" where
  "number_plus (JNum n) k = round_to_double (n + k)"
| "number_plus JInfinity k = JInfinity"
| "number_plus JNegInfinity k = JNegInfinity"
| "number_plus v k = JNaN"

text \<open>\<^verbatim>\<open>parseInt(s) + k\<close>.\<close>

definition parseInt_plus :: "string \<Rightarrow> int \<Rightarrow> jsval" where
  "parseInt_plus s k = number_plus (parseInt s) k"

text \<open>What a string says as a number (the conversion a comparison of a number with a
  string applies to the string): not a number, an infinity, or the decimal \<open>\<plusminus> m * 10 ^ e\<close>.\<close>

datatype number_text = NotNumber | Infinite bool | Decimal bool int int

text \<open>Digits with an optional fraction and an optional exponent: \<^verbatim>\<open>12\<close>, \<^verbatim>\<open>12.\<close>, \<^verbatim>\<open>1.5\<close>,
  \<^verbatim>\<open>.5\<close>, \<^verbatim>\<open>1e3\<close>, \<^verbatim>\<open>1.5E-3\<close>.\<close>

definition unsigned_decimal :: "string \<Rightarrow> (int \<times> int) option" where
  "unsigned_decimal s =
     (let ip = takeWhile (radix_digit 10) s;
          r1 = dropWhile (radix_digit 10) s;
          dot = (r1 \<noteq> [] \<and> hd r1 = CHR ''.'');
          fp = (if dot then takeWhile (radix_digit 10) (tl r1) else []);
          r2 = (if dot then dropWhile (radix_digit 10) (tl r1) else r1);
          m = digits_value 10 (ip @ fp)
      in if ip = [] \<and> fp = [] then None
         else if r2 = [] then Some (m, - int (length fp))
         else if hd r2 = CHR ''e'' \<or> hd r2 = CHR ''E''
         then (let r3 = tl r2;
                   eneg = (r3 \<noteq> [] \<and> hd r3 = CHR ''-'');
                   ds = (if r3 \<noteq> [] \<and> (hd r3 = CHR ''-'' \<or> hd r3 = CHR ''+'') then tl r3 else r3)
               in if ds \<noteq> [] \<and> list_all (radix_digit 10) ds
                  then Some (m, (if eneg then - 1 else 1) * digits_value 10 ds
                                - int (length fp))
                  else None)
         else None)"

text \<open>An integer with a prefix for its base: \<^verbatim>\<open>0x1F\<close>, \<^verbatim>\<open>0o17\<close>, \<^verbatim>\<open>0b101\<close>.\<close>

definition prefixed_integer :: "string \<Rightarrow> int option" where
  "prefixed_integer t =
     (let r = (if take 2 t = ''0x'' \<or> take 2 t = ''0X'' then 16
               else if take 2 t = ''0o'' \<or> take 2 t = ''0O'' then 8
               else if take 2 t = ''0b'' \<or> take 2 t = ''0B'' then 2 else 0);
          ds = drop 2 t
      in if r \<noteq> 0 \<and> ds \<noteq> [] \<and> list_all (radix_digit r) ds
         then Some (digits_value r ds) else None)"

text \<open>The conversion of a string to a number: white space around the text is dropped,
  the empty text is 0, a sign goes with a decimal or with \<^verbatim>\<open>Infinity\<close> only.\<close>

definition string_to_number :: "string \<Rightarrow> number_text" where
  "string_to_number s =
     (let t = rev (dropWhile js_whitespace (rev (dropWhile js_whitespace s)));
          neg = (t \<noteq> [] \<and> hd t = CHR ''-'');
          u = (if t \<noteq> [] \<and> (hd t = CHR ''-'' \<or> hd t = CHR ''+'') then tl t else t)
      in if t = [] then Decimal False 0 0
         else if u = ''Infinity'' then Infinite neg
         else (case prefixed_integer t of
                 Some n \<Rightarrow> Decimal False n 0
               | None \<Rightarrow>
                   (case unsigned_decimal u of
                      Some (m, e) \<Rightarrow> Decimal neg m e
                    | None \<Rightarrow> NotNumber)))"

text \<open>How many of the counters 0, 1, 2, ... are below the double nearest to
  \<open>m * 10 ^ e\<close>, for \<open>m\<close> not negative; \<open>None\<close> from \<open>2 ^ 53\<close> on. With \<open>n\<close> the integer part
  of \<open>m * 10 ^ e\<close>, a number strictly between \<open>n\<close> and \<open>n + 1\<close> counts \<open>n\<close> when the nearest
  double is \<open>n\<close> itself and \<open>n + 1\<close> otherwise.\<close>

definition rounds_below :: "int \<Rightarrow> int \<Rightarrow> int option" where
  "rounds_below m e =
     (let p = (if 0 \<le> e then m * 10 ^ nat e else m);
          q = (if 0 \<le> e then 1 else 10 ^ nat (- e));
          n = p div q;
          r = p mod q
      in if 2 ^ 53 \<le> n then None
         else if r = 0 then Some n
         else if n = 0 then Some (if p * 2 ^ 1075 \<le> q then 0 else 1)
         else (let k = bit_length n - 1;
                   h = r * 2 ^ (53 - k)
               in Some (if h < q \<or> (h = q \<and> even (n * 2 ^ (52 - k))) then n else n + 1)))"

section \<open>The data model\<close>

datatype kind = fileWithContent | fileExists | integer | string | phoneNumber

text \<open>Class \<^verbatim>\<open>Constraint\<close>. The field \<^verbatim>\<open>value\<close> is called \<open>val\<close> here.\<close>

record constraint =
  ident :: jsval
  expression :: string
  operator :: jsval
  val :: jsval
  altvalue :: jsval
  funcName :: jsval
  kind :: kind

text \<open>\<^verbatim>\<open>new Constraint({ident, value, funcName, kind, operator, expression})\<close>: no caller
  passes \<^verbatim>\<open>altvalue\<close>.\<close>

definition Constraint :: "jsval \<Rightarrow> jsval \<Rightarrow> jsval \<Rightarrow> kind \<Rightarrow> jsval \<Rightarrow> string \<Rightarrow> constraint" where
  "Constraint i v f k opr e =
     \<lparr>ident = i, expression = e, operator = opr, val = v, altvalue = JUndefined,
      funcName = f, kind = k\<rparr>"

text \<open>One entry of \<^verbatim>\<open>functionConstraints\<close>: \<^verbatim>\<open>{constraints: ..., params: ...}\<close>.\<close>

record func_record =
  fr_constraints :: "(string \<times> constraint list) list"
  fr_params :: "jsval list"

text \<open>What the extraction mutates: the object \<^verbatim>\<open>functionConstraints\<close> and the position
  in the stream of random strings. The object is the list of what its keys hold, in the
  order of their first assignment. One key is special in JavaScript: \<^verbatim>\<open>__proto__\<close> names the
  prototype of the object, which an assignment \<^verbatim>\<open>functionConstraints['__proto__'] = {...}\<close>
  sets and a read returns, so the list holds under this key what the pushes of the
  recognizers find there; it is no own property of the object.\<close>

record state =
  functionConstraints :: "(string \<times> func_record) list"
  rng :: nat

text \<open>What the source takes from outside: the file system, the parser (called with the
  options of the source, \<^verbatim>\<open>tolerant\<close> among them: it raises on some syntax errors and
  records the others in the field \<^verbatim>\<open>errors\<close> of the tree it returns), the random string
  generator (\<open>randexp_gen k\<close> is the \<open>k\<close>-th string \<^verbatim>\<open>new randexp(/[0-9]{10}/).gen()\<close>
  returns) and the memory of the process, as the number of rounds of the loop
  \<^verbatim>\<open>for (var i = 0; i < rightHand; i++) word += 'a'\<close> it has room for (below \<open>2 ^ 53\<close>). The Mersenne Twister
  \<^verbatim>\<open>engine\<close> of the source serves \<^verbatim>\<open>createConcreteIntegerValue\<close> only, which the extraction never
  calls.\<close>

record js_env =
  readFileSync :: "string \<Rightarrow> error + string"
  esprima_parse :: "string \<Rightarrow> error + jsval"
  randexp_gen :: "nat \<Rightarrow> string"
  max_rounds :: int

text \<open>The number of rounds of that loop, which compares its counter with the string
  \<^verbatim>\<open>rightHand\<close>: the string is converted to a number, and the rounds are the counters below
  it. \<open>None\<close>: more rounds than the memory allows.\<close>

definition loop_rounds :: "js_env \<Rightarrow> string \<Rightarrow> nat option" where
  "loop_rounds env t =
     (case string_to_number t of
        NotNumber \<Rightarrow> Some 0
      | Infinite neg \<Rightarrow> (if neg then Some 0 else None)
      | Decimal neg m e \<Rightarrow>
          (if neg then Some 0
           else (case rounds_below m e of
                   None \<Rightarrow> None
                 | Some n \<Rightarrow> if n \<le> max_rounds env then Some (nat n) else None)))"

section \<open>The tree walker\<close>

text \<open>A loop body run over a list, stopping at the first exception.\<close>

fun for_each :: "('a \<Rightarrow> 's \<Rightarrow> error + 's) \<Rightarrow> 'a list \<Rightarrow> 's \<Rightarrow> error + 's" where
  "for_each f [] s = Inr s"
| "for_each f (x # xs) s = and_then (f x s) (for_each f xs)"

text \<open>Function \<^verbatim>\<open>traverse\<close>: the visitor on the object, then every own property whose value
  is a non-null object, in order.\<close>

fun traverse :: "(jsval \<Rightarrow> 's \<Rightarrow> error + 's) \<Rightarrow> jsval \<Rightarrow> 's \<Rightarrow> error + 's"
  and traverse_children :: "(jsval \<Rightarrow> 's \<Rightarrow> error + 's) \<Rightarrow> jsval list \<Rightarrow> 's \<Rightarrow> error + 's"
where
  "traverse visitor (JObj fs) s =
     and_then (visitor (JObj fs) s) (traverse_children visitor (map snd fs))"
| "traverse visitor (JArr xs) s =
     and_then (visitor (JArr xs) s) (traverse_children visitor xs)"
| "traverse visitor v s = visitor v s"
| "traverse_children visitor [] s = Inr s"
| "traverse_children visitor (child # rest) s =
     (if is_object child
      then and_then (traverse visitor child s) (traverse_children visitor rest)
      else traverse_children visitor rest s)"

section \<open>The recognizers\<close>

text \<open>\<^verbatim>\<open>functionConstraints[funcName].constraints[ident].push(c)\<close>.\<close>

definition push_constraint :: "jsval \<Rightarrow> jsval \<Rightarrow> constraint \<Rightarrow> state \<Rightarrow> error + state" where
  "push_constraint fname idt c s =
     (case map_of (functionConstraints s) (js_toString fname) of
        None \<Rightarrow> Inl TypeError
      | Some fr \<Rightarrow>
          (case map_of (fr_constraints fr) (js_toString idt) of
             None \<Rightarrow> Inl TypeError
           | Some cs \<Rightarrow>
               Inr (s\<lparr>functionConstraints :=
                      AList.update (js_toString fname)
                        (fr\<lparr>fr_constraints :=
                              AList.update (js_toString idt) (cs @ [c]) (fr_constraints fr)\<rparr>)
                        (functionConstraints s)\<rparr>)))"

definition push_all :: "jsval \<Rightarrow> jsval \<Rightarrow> constraint list \<Rightarrow> state \<Rightarrow> error + state" where
  "push_all fname idt cs s = for_each (push_constraint fname idt) cs s"

text \<open>Lines 81 to 114: a unary expression over a member expression.\<close>

definition handle_unary :: "string \<Rightarrow> jsval \<Rightarrow> jsval list \<Rightarrow> jsval \<Rightarrow> state \<Rightarrow> error + state" where
  "handle_unary buf fname params child s =
     and_then (get_prop child ''type'') (\<lambda>ty.
     if \<not> strict_eq ty (JStr ''UnaryExpression'') then Inr s else
     and_then (get_path child [''argument'', ''type'']) (\<lambda>aty.
     if \<not> strict_eq aty (JStr ''MemberExpression'') then Inr s else
     and_then (range_text buf child) (\<lambda>expr.
       for_each (\<lambda>p s.
         and_then (get_path child [''argument'', ''object'', ''name'']) (\<lambda>oname.
         if \<not> strict_eq oname p then Inr s else
         and_then (get_path child [''argument'', ''property'', ''name'']) (\<lambda>property_name.
         and_then (get_prop child ''operator'') (\<lambda>opr.
           push_all fname p
             [Constraint p
                (JStr (js_toString p @ '' = {'' @ [CHR 0x27] @ js_toString property_name
                       @ [CHR 0x27] @ '': true}''))
                fname string opr expr,
              Constraint p (JBool False) fname string opr expr] s))))
         params s)))"

text \<open>The test both file-system recognizers start with:
  \<^verbatim>\<open>child.type === "CallExpression" && child.callee.property && child.callee.property.name === name\<close>.\<close>

definition is_member_call :: "jsval \<Rightarrow> string \<Rightarrow> error + bool" where
  "is_member_call child name =
     and_then (get_prop child ''type'') (\<lambda>ty.
     if \<not> strict_eq ty (JStr ''CallExpression'') then Inr False else
     and_then (get_path child [''callee'', ''property'']) (\<lambda>prop.
     if \<not> truthy prop then Inr False else
     and_then (get_prop prop ''name'') (\<lambda>n. Inr (strict_eq n (JStr name)))))"

text \<open>\<^verbatim>\<open>child.arguments[0].name\<close>.\<close>

definition first_argument_name :: "jsval \<Rightarrow> error + jsval" where
  "first_argument_name child =
     and_then (get_prop child ''arguments'') (\<lambda>args.
     and_then (get_index args 0) (\<lambda>a. get_prop a ''name''))"

text \<open>Lines 118 to 156: \<^verbatim>\<open>fs.readFileSync\<close>.\<close>

definition handle_readFileSync :: "string \<Rightarrow> jsval \<Rightarrow> jsval list \<Rightarrow> jsval \<Rightarrow> state \<Rightarrow> error + state" where
  "handle_readFileSync buf fname params child s =
     and_then (is_member_call child ''readFileSync'') (\<lambda>hit.
     if \<not> hit then Inr s else
     and_then (range_text buf child) (\<lambda>expr.
       for_each (\<lambda>p s.
         and_then (first_argument_name child) (\<lambda>aname.
         if \<not> strict_eq aname p then Inr s else
         and_then (get_prop child ''operator'') (\<lambda>opr.
           push_all fname p
             [Constraint p (JStr ([CHR 0x27] @ ''pathContent/file1'' @ [CHR 0x27]))
                fname fileWithContent opr expr,
              Constraint p (JStr ([CHR 0x27] @ ''pathContent/someDir'' @ [CHR 0x27]))
                fname fileWithContent opr expr,
              Constraint p (JStr ([CHR 0x27] @ ''file'' @ [CHR 0x27]))
                fname fileExists opr expr] s)))
         params s))"

text \<open>Lines 159 to 189: \<^verbatim>\<open>fs.readdirSync\<close>.\<close>

definition handle_readdirSync :: "string \<Rightarrow> jsval \<Rightarrow> jsval list \<Rightarrow> jsval \<Rightarrow> state \<Rightarrow> error + state" where
  "handle_readdirSync buf fname params child s =
     and_then (is_member_call child ''readdirSync'') (\<lambda>hit.
     if \<not> hit then Inr s else
     and_then (range_text buf child) (\<lambda>expr.
       for_each (\<lambda>p s.
         and_then (first_argument_name child) (\<lambda>aname.
         if \<not> strict_eq aname p then Inr s else
         and_then (get_prop child ''operator'') (\<lambda>opr.
           push_all fname p
             [Constraint p (JStr ([CHR 0x27] @ ''emptyDir'' @ [CHR 0x27]))
                fname fileExists opr expr,
              Constraint p (JStr ([CHR 0x27] @ ''nonEmptyDir'' @ [CHR 0x27]))
                fname fileExists opr expr] s)))
         params s))"

text \<open>\<^verbatim>\<open>_.get(child, 'type') === 'BinaryExpression' && _.includes(ops, _.get(child, 'operator'))\<close>.\<close>

definition is_binary :: "jsval \<Rightarrow> string list \<Rightarrow> bool" where
  "is_binary child ops =
     (strict_eq (lodash_get child [''type'']) (JStr ''BinaryExpression'')
      \<and> lodash_includes (map JStr ops) (lodash_get child [''operator'']))"

text \<open>\<^verbatim>\<open>buf.substring(child.right.range[0], child.right.range[1])\<close>.\<close>

definition right_hand :: "string \<Rightarrow> jsval \<Rightarrow> error + string" where
  "right_hand buf child = and_then (get_prop child ''right'') (range_text buf)"

text \<open>Lines 193 to 253: an equality with an identifier on the left; the branch for a
  parameter and the branch for a function of one parameter, which draws a random string.\<close>

definition handle_equivalence :: "js_env \<Rightarrow> string \<Rightarrow> jsval \<Rightarrow> jsval list \<Rightarrow> jsval \<Rightarrow> state \<Rightarrow> error + state" where
  "handle_equivalence env buf fname params child s =
     (if \<not> is_binary child [''!='', ''!=='', ''=='', ''===''] then Inr s else
      if \<not> strict_eq (lodash_get child [''left'', ''type'']) (JStr ''Identifier'') then Inr s else
      and_then (get_path child [''left'', ''name'']) (\<lambda>idt.
      and_then (range_text buf child) (\<lambda>expr.
      and_then (right_hand buf child) (\<lambda>rightHand.
      and_then (get_prop child ''operator'') (\<lambda>opr.
        if lodash_includes params (lodash_get child [''left'', ''name''])
        then push_all fname idt
               [Constraint idt (JStr rightHand) fname integer opr expr,
                Constraint idt
                  (case quoted_match rightHand of
                     Some inner \<Rightarrow> JStr ([CHR 0x27] @ ''NEQ - '' @ inner @ [CHR 0x27])
                   | None \<Rightarrow> JNaN)
                  fname integer opr expr] s
        else if length params = 1
        then (let p = params ! 0;
                  phone_number = randexp_gen env (rng s);
                  s1 = s\<lparr>rng := rng s + 1\<rparr>
              in case quoted_match rightHand of
                   None \<Rightarrow> Inl TypeError
                 | Some inner \<Rightarrow>
                     push_all fname p
                       [Constraint p (JStr ([CHR 0x27] @ ''NEQ - '' @ rightHand @ [CHR 0x27]))
                          fname string opr expr,
                        Constraint p
                          (JStr ([CHR 0x22] @ inner
                                 @ substring phone_number 3 (int (length phone_number))
                                 @ [CHR 0x22]))
                          fname string opr expr] s1)
        else Inr s)))))"

text \<open>Lines 256 to 292: \<^verbatim>\<open><\<close> or \<^verbatim>\<open>>\<close> with an identifier on the left.\<close>

definition handle_relational :: "string \<Rightarrow> jsval \<Rightarrow> jsval list \<Rightarrow> jsval \<Rightarrow> state \<Rightarrow> error + state" where
  "handle_relational buf fname params child s =
     (if \<not> is_binary child [''<'', ''>''] then Inr s else
      if \<not> strict_eq (lodash_get child [''left'', ''type'']) (JStr ''Identifier'') then Inr s else
      and_then (get_path child [''left'', ''name'']) (\<lambda>idt.
      and_then (range_text buf child) (\<lambda>expr.
      and_then (right_hand buf child) (\<lambda>rightHand.
      and_then (get_prop child ''operator'') (\<lambda>opr.
        if lodash_includes params (lodash_get child [''left'', ''name''])
        then push_all fname idt
               [Constraint idt (parseInt_plus rightHand (- 1)) fname integer opr expr,
                Constraint idt (parseInt_plus rightHand 1) fname integer opr expr] s
        else Inr s)))))"

text \<open>Lines 295 to 330: an equality with a method call on the left.\<close>

definition handle_indexOf :: "js_env \<Rightarrow> string \<Rightarrow> jsval \<Rightarrow> jsval list \<Rightarrow> jsval \<Rightarrow> state \<Rightarrow> error + state" where
  "handle_indexOf env buf fname params child s =
     (if \<not> is_binary child [''=='', ''!='', ''==='', ''!==''] then Inr s else
      if \<not> (strict_eq (lodash_get child [''left'', ''type'']) (JStr ''CallExpression'')
             \<and> strict_eq (lodash_get child [''left'', ''callee'', ''type'']) (JStr ''MemberExpression''))
      then Inr s else
      and_then (get_path child [''left'', ''callee'', ''object'', ''name'']) (\<lambda>idt.
      and_then (get_path child [''left'', ''arguments'']) (\<lambda>args.
      and_then (get_index args 0) (\<lambda>a.
      and_then (get_prop a ''value'') (\<lambda>given_word.
      and_then (range_text buf child) (\<lambda>expr.
      and_then (right_hand buf child) (\<lambda>rightHand.
        case loop_rounds env rightHand of
          None \<Rightarrow> Inl OutOfMemory
        | Some n \<Rightarrow>
            (let word = replicate n CHR ''a'' @ js_toString given_word
             in and_then (get_prop child ''operator'') (\<lambda>opr.
                if lodash_includes params (lodash_get child [''left'', ''callee'', ''object'', ''name''])
                then push_all fname idt
                       [Constraint idt (JStr ([CHR 0x27] @ word @ [CHR 0x27]))
                          fname string opr expr] s
                else Inr s)))))))))"

text \<open>The visitor of the inner walk (lines 78 to 333): every recognizer, in the order of
  the source.\<close>

definition visit_child :: "js_env \<Rightarrow> string \<Rightarrow> jsval \<Rightarrow> jsval list \<Rightarrow> jsval \<Rightarrow> state \<Rightarrow> error + state" where
  "visit_child env buf fname params child s =
     and_then (handle_unary buf fname params child s) (\<lambda>s.
     and_then (handle_readFileSync buf fname params child s) (\<lambda>s.
     and_then (handle_readdirSync buf fname params child s) (\<lambda>s.
     and_then (handle_equivalence env buf fname params child s) (\<lambda>s.
     and_then (handle_relational buf fname params child s) (\<lambda>s.
       handle_indexOf env buf fname params child s)))))"

section \<open>Function discovery\<close>

text \<open>Function \<^verbatim>\<open>functionName\<close>: \<^verbatim>\<open>node.id ? node.id.name : ''\<close>.\<close>

definition functionName :: "jsval \<Rightarrow> error + jsval" where
  "functionName node =
     and_then (get_prop node ''id'') (\<lambda>i.
       if truthy i then get_prop i ''name'' else Inr (JStr []))"

text \<open>\<^verbatim>\<open>node.params.map(function(p) {return p.name})\<close>; only an array has \<^verbatim>\<open>map\<close>.\<close>

fun map_names :: "jsval list \<Rightarrow> error + jsval list" where
  "map_names [] = Inr []"
| "map_names (p # ps) =
     and_then (get_prop p ''name'') (\<lambda>n. and_then (map_names ps) (\<lambda>ns. Inr (n # ns)))"

definition node_params :: "jsval \<Rightarrow> error + jsval list" where
  "node_params node =
     and_then (get_prop node ''params'') (\<lambda>ps.
       case ps of JArr xs \<Rightarrow> map_names xs | _ \<Rightarrow> Inl TypeError)"

text \<open>lodash \<^verbatim>\<open>_.zipObject(props, values)\<close>: assigns in order, so a repeated key keeps its
  first position and its last value. Every key becomes an own property of the new object
  (lodash defines the key \<^verbatim>\<open>__proto__\<close> as one, from its version 4.17.5 on).\<close>

definition zipObject :: "jsval list \<Rightarrow> 'v list \<Rightarrow> (string \<times> 'v) list" where
  "zipObject props vals = fold (\<lambda>(k, v). AList.update (js_toString k) v) (zip props vals) []"

text \<open>The visitor of the outer walk (lines 62 to 336). The assignment of line 72 files the
  record under the name of the function (for the name \<^verbatim>\<open>__proto__\<close>: as the prototype).\<close>

definition visit_node :: "js_env \<Rightarrow> string \<Rightarrow> jsval \<Rightarrow> state \<Rightarrow> error + state" where
  "visit_node env buf node s =
     and_then (get_prop node ''type'') (\<lambda>ty.
     if \<not> strict_eq ty (JStr ''FunctionDeclaration'') then Inr s else
     and_then (functionName node) (\<lambda>fname.
     and_then (node_params node) (\<lambda>params.
       traverse (visit_child env buf fname params) node
         (s\<lparr>functionConstraints :=
              AList.update (js_toString fname)
                \<lparr>fr_constraints = zipObject params (map (\<lambda>p. []) params), fr_params = params\<rparr>
                (functionConstraints s)\<rparr>))))"

text \<open>The own properties of the object \<^verbatim>\<open>functionConstraints\<close>: what a caller finds in
  the Result.\<close>

definition own_properties :: "(string \<times> 'v) list \<Rightarrow> (string \<times> 'v) list" where
  "own_properties al = AList.delete ''__proto__'' al"

text \<open>Function \<^verbatim>\<open>constraints\<close>, the exported operation. \<open>seed\<close> is where the process stands
  in its stream of random strings. The Result is given as the own properties of the
  returned object.\<close>

definition constraints :: "js_env \<Rightarrow> nat \<Rightarrow> string \<Rightarrow> error + (string \<times> func_record) list" where
  "constraints env seed filePath =
     and_then (readFileSync env filePath) (\<lambda>buf.
     and_then (esprima_parse env buf) (\<lambda>result.
     and_then (traverse (visit_node env buf) result \<lparr>functionConstraints = [], rng = seed\<rparr>)
       (\<lambda>s. Inr (own_properties (functionConstraints s)))))"

section \<open>Notions used to state the properties\<close>

text \<open>The array \<^verbatim>\<open>functionConstraints[funcName].constraints[ident]\<close> exists.\<close>

definition has_list :: "state \<Rightarrow> jsval \<Rightarrow> jsval \<Rightarrow> bool" where
  "has_list s fname idt =
     (case map_of (functionConstraints s) (js_toString fname) of
        None \<Rightarrow> False
      | Some fr \<Rightarrow> map_of (fr_constraints fr) (js_toString idt) \<noteq> None)"

text \<open>The state in which that array has got the constraints \<open>new\<close> at its end and
  nothing else has changed.\<close>

definition pushed :: "jsval \<Rightarrow> jsval \<Rightarrow> constraint list \<Rightarrow> state \<Rightarrow> state" where
  "pushed fname idt new s =
     (case map_of (functionConstraints s) (js_toString fname) of
        None \<Rightarrow> s
      | Some fr \<Rightarrow>
          (case map_of (fr_constraints fr) (js_toString idt) of
             None \<Rightarrow> s
           | Some cs \<Rightarrow>
               s\<lparr>functionConstraints :=
                   AList.update (js_toString fname)
                     (fr\<lparr>fr_constraints :=
                           AList.update (js_toString idt) (cs @ new) (fr_constraints fr)\<rparr>)
                     (functionConstraints s)\<rparr>))"

text \<open>The state in which the inner walk of the first function of a file starts: the
  record of the function with an empty list for every parameter.\<close>

definition entry_state :: "jsval \<Rightarrow> jsval list \<Rightarrow> state" where
  "entry_state fname params =
     \<lparr>functionConstraints =
        [(js_toString fname,
          \<lparr>fr_constraints = zipObject params (map (\<lambda>p. []) params), fr_params = params\<rparr>)],
      rng = 0\<rparr>"

text \<open>The objects a walk from \<open>root\<close> calls the visitor on, in the order of the calls.\<close>

fun visited :: "jsval \<Rightarrow> jsval list"
  and visited_children :: "jsval list \<Rightarrow> jsval list"
where
  "visited (JObj fs) = JObj fs # visited_children (map snd fs)"
| "visited (JArr xs) = JArr xs # visited_children xs"
| "visited v = [v]"
| "visited_children [] = []"
| "visited_children (child # rest) =
     (if is_object child then visited child else []) @ visited_children rest"

text \<open>What a recognizer can do to the state: draw random strings, and push constraints
  that carry the name of the function and of one of its parameters to the list of that
  parameter.\<close>

inductive emits :: "jsval \<Rightarrow> jsval list \<Rightarrow> state \<Rightarrow> state \<Rightarrow> bool"
  for fname :: jsval and params :: "jsval list" and s :: state
where
  emits_none: "emits fname params s s"
| emits_random: "emits fname params s t \<Longrightarrow> emits fname params s (t\<lparr>rng := k\<rparr>)"
| emits_push:
    "emits fname params s t \<Longrightarrow> idt \<in> set params \<Longrightarrow> ident c = idt \<Longrightarrow> funcName c = fname
     \<Longrightarrow> push_constraint fname idt c t = Inr t' \<Longrightarrow> emits fname params s t'"

text \<open>The parameter list stored under each function name.\<close>

definition param_table :: "(string \<times> func_record) list \<Rightarrow> (string \<times> jsval list) list" where
  "param_table fc = map (\<lambda>(n, fr). (n, fr_params fr)) fc"

text \<open>The object \<^verbatim>\<open>_.zipObject(params, _.map(params, () => []))\<close> a record starts with.\<close>

definition initial_lists :: "jsval list \<Rightarrow> (string \<times> constraint list) list" where
  "initial_lists params = zipObject params (map (\<lambda>p. []) params)"

text \<open>The test of the outer visitor.\<close>

definition is_declaration :: "jsval \<Rightarrow> bool" where
  "is_declaration n = (get_prop n ''type'' = Inr (JStr ''FunctionDeclaration''))"

text \<open>Every record has the keys it started with.\<close>

definition keys_match :: "(string \<times> func_record) list \<Rightarrow> bool" where
  "keys_match fc =
     (\<forall>n fr. map_of fc n = Some fr \<longrightarrow>
        map fst (fr_constraints fr) = map fst (initial_lists (fr_params fr)))"

text \<open>Every constraint is filed under its own function and parameter, and the parameter
  is one the record lists.\<close>

definition idents_declared :: "(string \<times> func_record) list \<Rightarrow> bool" where
  "idents_declared fc =
     (\<forall>n fr k cs c. map_of fc n = Some fr \<longrightarrow> map_of (fr_constraints fr) k = Some cs \<longrightarrow> c \<in> set cs
        \<longrightarrow> ident c \<in> set (fr_params fr) \<and> js_toString (ident c) = k
            \<and> js_toString (funcName c) = n)"

text \<open>What every state of an extraction satisfies.\<close>

definition state_invariant :: "state \<Rightarrow> bool" where
  "state_invariant s =
     (keys_match (functionConstraints s) \<and> idents_declared (functionConstraints s)
      \<and> distinct (map fst (functionConstraints s)))"

text \<open>The key under which the outer visitor files a function declaration.\<close>

definition declared_key :: "jsval \<Rightarrow> string option" where
  "declared_key n =
     (if is_declaration n
      then (case functionName n of Inl e \<Rightarrow> None | Inr f \<Rightarrow> Some (js_toString f))
      else None)"


text \<open>Every record was filed for a function declaration of the tree, under its name and
  with its parameter list.\<close>

definition records_declared :: "jsval \<Rightarrow> (string \<times> func_record) list \<Rightarrow> bool" where
  "records_declared tree fc =
     (\<forall>k fr. map_of fc k = Some fr \<longrightarrow>
        (\<exists>n \<in> set (visited tree). declared_key n = Some k \<and> node_params n = Inr (fr_params fr)))"

text \<open>A recognizer emits a constraint for the parameter \<open>p\<close> at the object \<open>c\<close>: the visitor
  of the inner walk, run on \<open>c\<close> from the fresh record of the function, leaves a constraint in
  the list of \<open>p\<close>.\<close>

definition matched_at :: "js_env \<Rightarrow> string \<Rightarrow> jsval \<Rightarrow> jsval list \<Rightarrow> jsval \<Rightarrow> jsval \<Rightarrow> bool" where
  "matched_at env buf fname params p c =
     (case visit_child env buf fname params c (entry_state fname params) of
        Inl e \<Rightarrow> False
      | Inr s \<Rightarrow>
          (case map_of (functionConstraints s) (js_toString fname) of
             None \<Rightarrow> False
           | Some fr \<Rightarrow> map_of (fr_constraints fr) (js_toString p) \<noteq> Some []))"

text \<open>The second constraint of the fallback for a function of one parameter, from the
  random string \<open>g\<close>.\<close>

definition synthesized :: "jsval \<Rightarrow> string \<Rightarrow> string \<Rightarrow> jsval \<Rightarrow> jsval \<Rightarrow> string \<Rightarrow> constraint" where
  "synthesized p inner g f opr e =
     Constraint p (JStr ([CHR 0x22] @ inner @ substring g 3 (int (length g)) @ [CHR 0x22]))
       f string opr e"

text \<open>Two constraints that are equal, or that are both such a constraint and differ in
  the random string only.\<close>

definition random_tail_only :: "constraint \<Rightarrow> constraint \<Rightarrow> bool" where
  "random_tail_only c1 c2 =
     (c1 = c2 \<or> (\<exists>p inner g1 g2 f opr e.
                   c1 = synthesized p inner g1 f opr e \<and> c2 = synthesized p inner g2 f opr e))"

text \<open>Two objects with the same keys in the same order and related values.\<close>

definition alist_rel :: "('v \<Rightarrow> 'w \<Rightarrow> bool) \<Rightarrow> (string \<times> 'v) list \<Rightarrow> (string \<times> 'w) list \<Rightarrow> bool" where
  "alist_rel Q l1 l2 = list_all2 (\<lambda>x y. fst x = fst y \<and> Q (snd x) (snd y)) l1 l2"

text \<open>Two records with the same parameters and, for every parameter, as many constraints,
  related one by one in their order.\<close>

definition same_record :: "(constraint \<Rightarrow> constraint \<Rightarrow> bool) \<Rightarrow> func_record \<Rightarrow> func_record \<Rightarrow> bool" where
  "same_record C fr1 fr2 =
     (fr_params fr1 = fr_params fr2
      \<and> alist_rel (list_all2 C) (fr_constraints fr1) (fr_constraints fr2))"

text \<open>Two Results with the same functions in the same order and such records.\<close>

definition same_result ::
  "(constraint \<Rightarrow> constraint \<Rightarrow> bool) \<Rightarrow> (string \<times> func_record) list \<Rightarrow> (string \<times> func_record) list \<Rightarrow> bool" where
  "same_result C r1 r2 = alist_rel (same_record C) r1 r2"

text \<open>Two runs that end alike: with the same error, or with related states or Results.\<close>

definition alike :: "('a \<Rightarrow> 'b \<Rightarrow> bool) \<Rightarrow> error + 'a \<Rightarrow> error + 'b \<Rightarrow> bool" where
  "alike R m1 m2 =
     (case m1 of
        Inl e \<Rightarrow> m2 = Inl e
      | Inr t1 \<Rightarrow> (case m2 of Inl e \<Rightarrow> False | Inr t2 \<Rightarrow> R t1 t2))"

text \<open>A relation \<open>R\<close> between the states of two runs that the steps of the recognizers
  keep: drawing a random string, and pushing, in both runs, constraints that \<open>C\<close> relates. \<open>C\<close>
  relates what the recognizers push at the same place of the two runs: the same constraint,
  or the synthesized constraints for two random strings.\<close>

definition kept_by_steps ::
  "jsval \<Rightarrow> (state \<Rightarrow> state \<Rightarrow> bool) \<Rightarrow> (constraint \<Rightarrow> constraint \<Rightarrow> bool) \<Rightarrow> bool" where
  "kept_by_steps fname R C =
     ((\<forall>t1 t2 k1 k2. R t1 t2 \<longrightarrow> R (t1\<lparr>rng := k1\<rparr>) (t2\<lparr>rng := k2\<rparr>))
      \<and> (\<forall>t1 t2 idt c1 c2. R t1 t2 \<longrightarrow> C c1 c2
            \<longrightarrow> alike R (push_constraint fname idt c1 t1) (push_constraint fname idt c2 t2))
      \<and> (\<forall>c. C c c)
      \<and> (\<forall>p inner g1 g2 f opr e.
            C (synthesized p inner g1 f opr e) (synthesized p inner g2 f opr e)))"

text \<open>The lists of the record of \<open>fname\<close> in the state \<open>t\<close> are those of \<open>base\<close>, each followed
  by as many constraints as the list has in the state \<open>u\<close>.\<close>

definition grown_from :: "jsval \<Rightarrow> (string \<times> constraint list) list \<Rightarrow> state \<Rightarrow> state \<Rightarrow> bool" where
  "grown_from fname base t u =
     (\<exists>fr fu. map_of (functionConstraints t) (js_toString fname) = Some fr
        \<and> map_of (functionConstraints u) (js_toString fname) = Some fu
        \<and> (\<forall>k. rel_option (\<lambda>cs cu. \<exists>old new. map_of base k = Some old \<and> cs = old @ new
                                             \<and> length new = length cu)
                  (map_of (fr_constraints fr) k) (map_of (fr_constraints fu) k)))"


section \<open>Sample subject files\<close>

text \<open>
  Syntax trees in the shape the parser gives them under the options of the source
  (tokens, tolerant, loc, range): the fields of each node kind in their order, then
  \<^verbatim>\<open>range\<close> and \<^verbatim>\<open>loc\<close>; the root also carries the token list and the list of tolerated
  errors. The walks meet these extra objects too, and find no node kind of interest in
  them. A builder places its node on the first line of the file; \<open>on_lines\<close> moves it.
\<close>

definition loc_of :: "int \<Rightarrow> int \<Rightarrow> jsval" where
  "loc_of a b =
     JObj [(''start'', JObj [(''line'', JNum 1), (''column'', JNum a)]),
           (''end'', JObj [(''line'', JNum 1), (''column'', JNum b)])]"

definition mk_node :: "string \<Rightarrow> (string \<times> jsval) list \<Rightarrow> int \<Rightarrow> int \<Rightarrow> jsval" where
  "mk_node ty fs a b =
     JObj ((''type'', JStr ty) # fs @ [(''range'', JArr [JNum a, JNum b]), (''loc'', loc_of a b)])"

definition token :: "string \<Rightarrow> string \<Rightarrow> int \<Rightarrow> int \<Rightarrow> jsval" where
  "token ty v a b = mk_node ty [(''value'', JStr v)] a b"

definition Identifier :: "string \<Rightarrow> int \<Rightarrow> int \<Rightarrow> jsval" where
  "Identifier n a b = mk_node ''Identifier'' [(''name'', JStr n)] a b"

definition Literal :: "jsval \<Rightarrow> string \<Rightarrow> int \<Rightarrow> int \<Rightarrow> jsval" where
  "Literal v raw a b = mk_node ''Literal'' [(''value'', v), (''raw'', JStr raw)] a b"

definition MemberExpression :: "jsval \<Rightarrow> jsval \<Rightarrow> int \<Rightarrow> int \<Rightarrow> jsval" where
  "MemberExpression obj prop a b =
     mk_node ''MemberExpression''
       [(''computed'', JBool False), (''object'', obj), (''property'', prop)] a b"

definition CallExpression :: "jsval \<Rightarrow> jsval list \<Rightarrow> int \<Rightarrow> int \<Rightarrow> jsval" where
  "CallExpression callee args a b =
     mk_node ''CallExpression'' [(''callee'', callee), (''arguments'', JArr args)] a b"

definition UnaryExpression :: "string \<Rightarrow> jsval \<Rightarrow> int \<Rightarrow> int \<Rightarrow> jsval" where
  "UnaryExpression opr arg a b =
     mk_node ''UnaryExpression''
       [(''operator'', JStr opr), (''argument'', arg), (''prefix'', JBool True)] a b"

definition BinaryExpression :: "string \<Rightarrow> jsval \<Rightarrow> jsval \<Rightarrow> int \<Rightarrow> int \<Rightarrow> jsval" where
  "BinaryExpression opr l r a b =
     mk_node ''BinaryExpression'' [(''operator'', JStr opr), (''left'', l), (''right'', r)] a b"

definition ExpressionStatement :: "jsval \<Rightarrow> int \<Rightarrow> int \<Rightarrow> jsval" where
  "ExpressionStatement e a b = mk_node ''ExpressionStatement'' [(''expression'', e)] a b"

definition BlockStatement :: "jsval list \<Rightarrow> int \<Rightarrow> int \<Rightarrow> jsval" where
  "BlockStatement body a b = mk_node ''BlockStatement'' [(''body'', JArr body)] a b"

definition FunctionDeclaration :: "jsval \<Rightarrow> jsval list \<Rightarrow> jsval \<Rightarrow> int \<Rightarrow> int \<Rightarrow> jsval" where
  "FunctionDeclaration i ps body a b =
     mk_node ''FunctionDeclaration''
       [(''id'', i), (''params'', JArr ps), (''body'', body), (''generator'', JBool False),
        (''expression'', JBool False), (''async'', JBool False)] a b"


definition ObjectExpression :: "jsval list \<Rightarrow> int \<Rightarrow> int \<Rightarrow> jsval" where
  "ObjectExpression props a b = mk_node ''ObjectExpression'' [(''properties'', JArr props)] a b"

definition Property :: "jsval \<Rightarrow> jsval \<Rightarrow> bool \<Rightarrow> int \<Rightarrow> int \<Rightarrow> jsval" where
  "Property k v short a b =
     mk_node ''Property''
       [(''key'', k), (''computed'', JBool False), (''value'', v), (''kind'', JStr ''init''),
        (''method'', JBool False), (''shorthand'', JBool short)] a b"

definition AssignmentExpression :: "string \<Rightarrow> jsval \<Rightarrow> jsval \<Rightarrow> int \<Rightarrow> int \<Rightarrow> jsval" where
  "AssignmentExpression opr l r a b =
     mk_node ''AssignmentExpression'' [(''operator'', JStr opr), (''left'', l), (''right'', r)] a b"


definition Program :: "jsval list \<Rightarrow> jsval list \<Rightarrow> int \<Rightarrow> int \<Rightarrow> jsval" where
  "Program body toks a b =
     JObj [(''type'', JStr ''Program''), (''body'', JArr body), (''sourceType'', JStr ''script''),
           (''range'', JArr [JNum a, JNum b]), (''loc'', loc_of a b),
           (''tokens'', JArr toks), (''errors'', JArr [])]"

text \<open>A syntax error the tolerant parser records and goes on from: the enumerable
  properties of the error object.\<close>

definition tolerated_error :: "int \<Rightarrow> int \<Rightarrow> string \<Rightarrow> jsval" where
  "tolerated_error i line description =
     JObj [(''index'', JNum i), (''lineNumber'', JNum line), (''description'', JStr description)]"

text \<open>The tree of a text with tolerated errors.\<close>

definition with_errors :: "jsval list \<Rightarrow> jsval \<Rightarrow> jsval" where
  "with_errors errs n =
     (case n of JObj fs \<Rightarrow> JObj (AList.update ''errors'' (JArr errs) fs) | v \<Rightarrow> v)"

text \<open>An environment whose file system holds one file, whose parser knows one text, whose
  random strings are all \<^verbatim>\<open>0123456789\<close> and whose memory has room for \<open>2 ^ 29\<close> rounds of the
  counting loop.\<close>

definition sample_env :: "string \<Rightarrow> jsval \<Rightarrow> js_env" where
  "sample_env src ast =
     \<lparr>readFileSync = (\<lambda>path. if path = ''subject.js'' then Inr src else Inl FileError),
      esprima_parse = (\<lambda>buf. if buf = src then Inr ast else Inl SyntaxError),
      randexp_gen = (\<lambda>k. ''0123456789''),
      max_rounds = 2 ^ 29\<rparr>"

text \<open>An environment whose one file holds a text the parser raises on.\<close>

definition unparsable_env :: "string \<Rightarrow> js_env" where
  "unparsable_env src =
     \<lparr>readFileSync = (\<lambda>path. if path = ''subject.js'' then Inr src else Inl FileError),
      esprima_parse = (\<lambda>buf. Inl SyntaxError),
      randexp_gen = (\<lambda>k. ''0123456789''),
      max_rounds = 2 ^ 29\<rparr>"


text \<open>\<^verbatim>\<open>function f(p) { p < 5; }\<close>\<close>

definition sample_lt_src :: string where
  "sample_lt_src = ''function f(p) { p < 5; }''"

definition sample_lt_node :: jsval where
  "sample_lt_node =
     BinaryExpression ''<'' (Identifier ''p'' 16 17)
       (Literal (JNum 5) ''5'' 20 21) 16 21"

definition sample_lt_decl :: jsval where
  "sample_lt_decl =
     FunctionDeclaration (Identifier ''f'' 9 10) [Identifier ''p'' 11 12]
       (BlockStatement [ExpressionStatement sample_lt_node 16 22] 14 24) 0 24"

definition sample_lt_ast :: jsval where
  "sample_lt_ast =
     Program
       [sample_lt_decl]
       [token ''Keyword'' ''function'' 0 8, token ''Identifier'' ''f'' 9 10,
        token ''Punctuator'' ''('' 10 11, token ''Identifier'' ''p'' 11 12,
        token ''Punctuator'' '')'' 12 13, token ''Punctuator'' ''{'' 14 15,
        token ''Identifier'' ''p'' 16 17, token ''Punctuator'' ''<'' 18 19,
        token ''Numeric'' ''5'' 20 21, token ''Punctuator'' '';'' 21 22,
        token ''Punctuator'' ''}'' 23 24]
       0 24"





text \<open>\<^verbatim>\<open>function f(p) { fs.readFileSync(); }\<close>\<close>

definition sample_noargs_src :: string where
  "sample_noargs_src = ''function f(p) { fs.readFileSync(); }''"

definition sample_noargs_node :: jsval where
  "sample_noargs_node =
     CallExpression
       (MemberExpression (Identifier ''fs'' 16 18)
          (Identifier ''readFileSync'' 19 31) 16 31)
       [] 16 33"

definition sample_noargs_decl :: jsval where
  "sample_noargs_decl =
     FunctionDeclaration (Identifier ''f'' 9 10) [Identifier ''p'' 11 12]
       (BlockStatement [ExpressionStatement sample_noargs_node 16 34] 14 36) 0 36"

definition sample_noargs_ast :: jsval where
  "sample_noargs_ast =
     Program
       [sample_noargs_decl]
       [token ''Keyword'' ''function'' 0 8, token ''Identifier'' ''f'' 9 10,
        token ''Punctuator'' ''('' 10 11, token ''Identifier'' ''p'' 11 12,
        token ''Punctuator'' '')'' 12 13, token ''Punctuator'' ''{'' 14 15,
        token ''Identifier'' ''fs'' 16 18, token ''Punctuator'' ''.'' 18 19,
        token ''Identifier'' ''readFileSync'' 19 31, token ''Punctuator'' ''('' 31 32,
        token ''Punctuator'' '')'' 32 33, token ''Punctuator'' '';'' 33 34,
        token ''Punctuator'' ''}'' 35 36]
       0 36"

text \<open>\<^verbatim>\<open>function f(x) { y == 5; }\<close>\<close>

definition sample_eq_num_src :: string where
  "sample_eq_num_src = ''function f(x) { y == 5; }''"

definition sample_eq_num_node :: jsval where
  "sample_eq_num_node =
     BinaryExpression ''=='' (Identifier ''y'' 16 17)
       (Literal (JNum 5) ''5'' 21 22) 16 22"

definition sample_eq_num_decl :: jsval where
  "sample_eq_num_decl =
     FunctionDeclaration (Identifier ''f'' 9 10) [Identifier ''x'' 11 12]
       (BlockStatement [ExpressionStatement sample_eq_num_node 16 23] 14 25) 0 25"

definition sample_eq_num_ast :: jsval where
  "sample_eq_num_ast =
     Program
       [sample_eq_num_decl]
       [token ''Keyword'' ''function'' 0 8, token ''Identifier'' ''f'' 9 10,
        token ''Punctuator'' ''('' 10 11, token ''Identifier'' ''x'' 11 12,
        token ''Punctuator'' '')'' 12 13, token ''Punctuator'' ''{'' 14 15,
        token ''Identifier'' ''y'' 16 17, token ''Punctuator'' ''=='' 18 20,
        token ''Numeric'' ''5'' 21 22, token ''Punctuator'' '';'' 22 23,
        token ''Punctuator'' ''}'' 24 25]
       0 25"

text \<open>\<^verbatim>\<open>function f(p) { fs.readFileSync(p); }\<close>\<close>

definition sample_read_src :: string where
  "sample_read_src = ''function f(p) { fs.readFileSync(p); }''"

definition sample_read_node :: jsval where
  "sample_read_node =
     CallExpression
       (MemberExpression (Identifier ''fs'' 16 18)
          (Identifier ''readFileSync'' 19 31) 16 31)
       [Identifier ''p'' 32 33] 16 34"

definition sample_read_decl :: jsval where
  "sample_read_decl =
     FunctionDeclaration (Identifier ''f'' 9 10) [Identifier ''p'' 11 12]
       (BlockStatement [ExpressionStatement sample_read_node 16 35] 14 37) 0 37"

definition sample_read_ast :: jsval where
  "sample_read_ast =
     Program
       [sample_read_decl]
       [token ''Keyword'' ''function'' 0 8, token ''Identifier'' ''f'' 9 10,
        token ''Punctuator'' ''('' 10 11, token ''Identifier'' ''p'' 11 12,
        token ''Punctuator'' '')'' 12 13, token ''Punctuator'' ''{'' 14 15,
        token ''Identifier'' ''fs'' 16 18, token ''Punctuator'' ''.'' 18 19,
        token ''Identifier'' ''readFileSync'' 19 31, token ''Punctuator'' ''('' 31 32,
        token ''Identifier'' ''p'' 32 33, token ''Punctuator'' '')'' 33 34,
        token ''Punctuator'' '';'' 34 35, token ''Punctuator'' ''}'' 36 37]
       0 37"

text \<open>\<^verbatim>\<open>function f(p, p) { fs.readFileSync(p); }\<close>\<close>

definition sample_read_dup_src :: string where
  "sample_read_dup_src = ''function f(p, p) { fs.readFileSync(p); }''"

definition sample_read_dup_node :: jsval where
  "sample_read_dup_node =
     CallExpression
       (MemberExpression (Identifier ''fs'' 19 21)
          (Identifier ''readFileSync'' 22 34) 19 34)
       [Identifier ''p'' 35 36] 19 37"

definition sample_read_dup_decl :: jsval where
  "sample_read_dup_decl =
     FunctionDeclaration (Identifier ''f'' 9 10) [Identifier ''p'' 11 12, Identifier ''p'' 14 15]
       (BlockStatement [ExpressionStatement sample_read_dup_node 19 38] 17 40) 0 40"

definition sample_read_dup_ast :: jsval where
  "sample_read_dup_ast =
     Program
       [sample_read_dup_decl]
       [token ''Keyword'' ''function'' 0 8, token ''Identifier'' ''f'' 9 10,
        token ''Punctuator'' ''('' 10 11, token ''Identifier'' ''p'' 11 12,
        token ''Punctuator'' '','' 12 13, token ''Identifier'' ''p'' 14 15,
        token ''Punctuator'' '')'' 15 16, token ''Punctuator'' ''{'' 17 18,
        token ''Identifier'' ''fs'' 19 21, token ''Punctuator'' ''.'' 21 22,
        token ''Identifier'' ''readFileSync'' 22 34, token ''Punctuator'' ''('' 34 35,
        token ''Identifier'' ''p'' 35 36, token ''Punctuator'' '')'' 36 37,
        token ''Punctuator'' '';'' 37 38, token ''Punctuator'' ''}'' 39 40]
       0 40"


definition sample_not_node :: jsval where
  "sample_not_node =
     UnaryExpression ''!''
       (MemberExpression (Identifier ''p'' 17 18)
          (Identifier ''x'' 19 20) 17 20) 16 20"

definition sample_not_decl :: jsval where
  "sample_not_decl =
     FunctionDeclaration (Identifier ''f'' 9 10) [Identifier ''p'' 11 12]
       (BlockStatement [ExpressionStatement sample_not_node 16 21] 14 23) 0 23"

definition sample_not_ast :: jsval where
  "sample_not_ast =
     Program
       [sample_not_decl]
       [token ''Keyword'' ''function'' 0 8, token ''Identifier'' ''f'' 9 10,
        token ''Punctuator'' ''('' 10 11, token ''Identifier'' ''p'' 11 12,
        token ''Punctuator'' '')'' 12 13, token ''Punctuator'' ''{'' 14 15,
        token ''Punctuator'' ''!'' 16 17, token ''Identifier'' ''p'' 17 18,
        token ''Punctuator'' ''.'' 18 19, token ''Identifier'' ''x'' 19 20,
        token ''Punctuator'' '';'' 20 21, token ''Punctuator'' ''}'' 22 23]
       0 23"





text \<open>\<^verbatim>\<open>function f(x) { y == "555"; }\<close>\<close>

definition sample_phone_src :: string where
  "sample_phone_src = (''function f(x) { y == '' @ [CHR 0x22] @ ''555'' @ [CHR 0x22] @ ''; }'')"

definition sample_phone_node :: jsval where
  "sample_phone_node =
     BinaryExpression ''=='' (Identifier ''y'' 16 17)
       (Literal (JStr ''555'')
          ([CHR 0x22] @ ''555'' @ [CHR 0x22]) 21 26) 16 26"

definition sample_phone_decl :: jsval where
  "sample_phone_decl =
     FunctionDeclaration (Identifier ''f'' 9 10) [Identifier ''x'' 11 12]
       (BlockStatement [ExpressionStatement sample_phone_node 16 27] 14 29) 0 29"

definition sample_phone_ast :: jsval where
  "sample_phone_ast =
     Program
       [sample_phone_decl]
       [token ''Keyword'' ''function'' 0 8, token ''Identifier'' ''f'' 9 10,
        token ''Punctuator'' ''('' 10 11, token ''Identifier'' ''x'' 11 12,
        token ''Punctuator'' '')'' 12 13, token ''Punctuator'' ''{'' 14 15,
        token ''Identifier'' ''y'' 16 17, token ''Punctuator'' ''=='' 18 20,
        token ''String'' ([CHR 0x22] @ ''555'' @ [CHR 0x22]) 21 26, token ''Punctuator'' '';'' 26 27,
        token ''Punctuator'' ''}'' 28 29]
       0 29"





text \<open>\<^verbatim>\<open>function f(a, b) { a < 5; }\<close>\<close>

definition sample_two_src :: string where
  "sample_two_src = ''function f(a, b) { a < 5; }''"

definition sample_two_node :: jsval where
  "sample_two_node =
     BinaryExpression ''<'' (Identifier ''a'' 19 20)
       (Literal (JNum 5) ''5'' 23 24) 19 24"

definition sample_two_decl :: jsval where
  "sample_two_decl =
     FunctionDeclaration (Identifier ''f'' 9 10) [Identifier ''a'' 11 12, Identifier ''b'' 14 15]
       (BlockStatement [ExpressionStatement sample_two_node 19 25] 17 27) 0 27"

definition sample_two_ast :: jsval where
  "sample_two_ast =
     Program
       [sample_two_decl]
       [token ''Keyword'' ''function'' 0 8, token ''Identifier'' ''f'' 9 10,
        token ''Punctuator'' ''('' 10 11, token ''Identifier'' ''a'' 11 12,
        token ''Punctuator'' '','' 12 13, token ''Identifier'' ''b'' 14 15,
        token ''Punctuator'' '')'' 15 16, token ''Punctuator'' ''{'' 17 18,
        token ''Identifier'' ''a'' 19 20, token ''Punctuator'' ''<'' 21 22,
        token ''Numeric'' ''5'' 23 24, token ''Punctuator'' '';'' 24 25,
        token ''Punctuator'' ''}'' 26 27]
       0 27"

text \<open>\<^verbatim>\<open>function f(a, a) { }\<close>\<close>

definition sample_dup_src :: string where
  "sample_dup_src = ''function f(a, a) { }''"

definition sample_dup_decl :: jsval where
  "sample_dup_decl =
     FunctionDeclaration (Identifier ''f'' 9 10) [Identifier ''a'' 11 12, Identifier ''a'' 14 15]
       (BlockStatement [] 17 20) 0 20"

definition sample_dup_ast :: jsval where
  "sample_dup_ast =
     Program
       [sample_dup_decl]
       [token ''Keyword'' ''function'' 0 8, token ''Identifier'' ''f'' 9 10,
        token ''Punctuator'' ''('' 10 11, token ''Identifier'' ''a'' 11 12,
        token ''Punctuator'' '','' 12 13, token ''Identifier'' ''a'' 14 15,
        token ''Punctuator'' '')'' 15 16, token ''Punctuator'' ''{'' 17 18,
        token ''Punctuator'' ''}'' 19 20]
       0 20"

text \<open>\<^verbatim>\<open>function f(a) { } function f(a, b) { }\<close>\<close>

definition sample_same_src :: string where
  "sample_same_src = ''function f(a) { } function f(a, b) { }''"

definition sample_same_ast :: jsval where
  "sample_same_ast =
     Program
       [FunctionDeclaration (Identifier ''f'' 9 10) [Identifier ''a'' 11 12]
           (BlockStatement [] 14 17) 0 17,
        FunctionDeclaration (Identifier ''f'' 27 28) [Identifier ''a'' 29 30, Identifier ''b'' 32 33]
           (BlockStatement [] 35 38) 18 38]
       [token ''Keyword'' ''function'' 0 8, token ''Identifier'' ''f'' 9 10,
        token ''Punctuator'' ''('' 10 11, token ''Identifier'' ''a'' 11 12,
        token ''Punctuator'' '')'' 12 13, token ''Punctuator'' ''{'' 14 15,
        token ''Punctuator'' ''}'' 16 17, token ''Keyword'' ''function'' 18 26,
        token ''Identifier'' ''f'' 27 28, token ''Punctuator'' ''('' 28 29,
        token ''Identifier'' ''a'' 29 30, token ''Punctuator'' '','' 30 31,
        token ''Identifier'' ''b'' 32 33, token ''Punctuator'' '')'' 33 34,
        token ''Punctuator'' ''{'' 35 36, token ''Punctuator'' ''}'' 37 38]
       0 38"

text \<open>\<^verbatim>\<open>function f(p) { p < "abc"; }\<close>\<close>

definition sample_lt_str_src :: string where
  "sample_lt_str_src = (''function f(p) { p < '' @ [CHR 0x22] @ ''abc'' @ [CHR 0x22] @ ''; }'')"

definition sample_lt_str_node :: jsval where
  "sample_lt_str_node =
     BinaryExpression ''<'' (Identifier ''p'' 16 17)
       (Literal (JStr ''abc'')
          ([CHR 0x22] @ ''abc'' @ [CHR 0x22]) 20 25) 16 25"

definition sample_lt_str_decl :: jsval where
  "sample_lt_str_decl =
     FunctionDeclaration (Identifier ''f'' 9 10) [Identifier ''p'' 11 12]
       (BlockStatement [ExpressionStatement sample_lt_str_node 16 26] 14 28) 0 28"

definition sample_lt_str_ast :: jsval where
  "sample_lt_str_ast =
     Program
       [sample_lt_str_decl]
       [token ''Keyword'' ''function'' 0 8, token ''Identifier'' ''f'' 9 10,
        token ''Punctuator'' ''('' 10 11, token ''Identifier'' ''p'' 11 12,
        token ''Punctuator'' '')'' 12 13, token ''Punctuator'' ''{'' 14 15,
        token ''Identifier'' ''p'' 16 17, token ''Punctuator'' ''<'' 18 19,
        token ''String'' ([CHR 0x22] @ ''abc'' @ [CHR 0x22]) 20 25, token ''Punctuator'' '';'' 25 26,
        token ''Punctuator'' ''}'' 27 28]
       0 28"

text \<open>\<^verbatim>\<open>function g(a) { a < 5; } function f(p) { fs.readFileSync(); }\<close>\<close>

definition sample_abort_src :: string where
  "sample_abort_src = ''function g(a) { a < 5; } function f(p) { fs.readFileSync(); }''"

definition sample_abort_ast :: jsval where
  "sample_abort_ast =
     Program
       [FunctionDeclaration (Identifier ''g'' 9 10) [Identifier ''a'' 11 12]
           (BlockStatement [ExpressionStatement
              (BinaryExpression ''<'' (Identifier ''a'' 16 17)
               (Literal (JNum 5) ''5'' 20 21) 16 21) 16 22] 14 24) 0 24,
        FunctionDeclaration (Identifier ''f'' 34 35) [Identifier ''p'' 36 37]
           (BlockStatement [ExpressionStatement
              (CallExpression
               (MemberExpression (Identifier ''fs'' 41 43)
                  (Identifier ''readFileSync'' 44 56) 41 56)
               [] 41 58) 41 59] 39 61) 25 61]
       [token ''Keyword'' ''function'' 0 8, token ''Identifier'' ''g'' 9 10,
        token ''Punctuator'' ''('' 10 11, token ''Identifier'' ''a'' 11 12,
        token ''Punctuator'' '')'' 12 13, token ''Punctuator'' ''{'' 14 15,
        token ''Identifier'' ''a'' 16 17, token ''Punctuator'' ''<'' 18 19,
        token ''Numeric'' ''5'' 20 21, token ''Punctuator'' '';'' 21 22,
        token ''Punctuator'' ''}'' 23 24, token ''Keyword'' ''function'' 25 33,
        token ''Identifier'' ''f'' 34 35, token ''Punctuator'' ''('' 35 36,
        token ''Identifier'' ''p'' 36 37, token ''Punctuator'' '')'' 37 38,
        token ''Punctuator'' ''{'' 39 40, token ''Identifier'' ''fs'' 41 43,
        token ''Punctuator'' ''.'' 43 44, token ''Identifier'' ''readFileSync'' 44 56,
        token ''Punctuator'' ''('' 56 57, token ''Punctuator'' '')'' 57 58,
        token ''Punctuator'' '';'' 58 59, token ''Punctuator'' ''}'' 60 61]
       0 61"





text \<open>\<^verbatim>\<open>function f(a, b) { a; }\<close>\<close>

definition sample_plain_src :: string where
  "sample_plain_src = ''function f(a, b) { a; }''"

definition sample_plain_node :: jsval where
  "sample_plain_node =
     Identifier ''a'' 19 20"

definition sample_plain_decl :: jsval where
  "sample_plain_decl =
     FunctionDeclaration (Identifier ''f'' 9 10) [Identifier ''a'' 11 12, Identifier ''b'' 14 15]
       (BlockStatement [ExpressionStatement sample_plain_node 19 21] 17 23) 0 23"

definition sample_plain_ast :: jsval where
  "sample_plain_ast =
     Program
       [sample_plain_decl]
       [token ''Keyword'' ''function'' 0 8, token ''Identifier'' ''f'' 9 10,
        token ''Punctuator'' ''('' 10 11, token ''Identifier'' ''a'' 11 12,
        token ''Punctuator'' '','' 12 13, token ''Identifier'' ''b'' 14 15,
        token ''Punctuator'' '')'' 15 16, token ''Punctuator'' ''{'' 17 18,
        token ''Identifier'' ''a'' 19 20, token ''Punctuator'' '';'' 20 21,
        token ''Punctuator'' ''}'' 22 23]
       0 23"

























text \<open>\<^verbatim>\<open>function __proto__(a) { }\<close>\<close>

definition sample_proto_src :: string where
  "sample_proto_src = ''function __proto__(a) { }''"

definition sample_proto_decl :: jsval where
  "sample_proto_decl =
     FunctionDeclaration (Identifier ''__proto__'' 9 18) [Identifier ''a'' 19 20]
       (BlockStatement [] 22 25) 0 25"

definition sample_proto_ast :: jsval where
  "sample_proto_ast =
     Program
       [sample_proto_decl]
       [token ''Keyword'' ''function'' 0 8, token ''Identifier'' ''__proto__'' 9 18,
        token ''Punctuator'' ''('' 18 19, token ''Identifier'' ''a'' 19 20,
        token ''Punctuator'' '')'' 20 21, token ''Punctuator'' ''{'' 22 23,
        token ''Punctuator'' ''}'' 24 25]
       0 25"

text \<open>\<^verbatim>\<open>function f(p) { p < 5; } x = {a b};\<close>\<close>

definition sample_tolerated_src :: string where
  "sample_tolerated_src = ''function f(p) { p < 5; } x = {a b};''"

definition sample_tolerated_decl :: jsval where
  "sample_tolerated_decl =
     FunctionDeclaration (Identifier ''f'' 9 10) [Identifier ''p'' 11 12]
       (BlockStatement [ExpressionStatement
              (BinaryExpression ''<'' (Identifier ''p'' 16 17)
               (Literal (JNum 5) ''5'' 20 21) 16 21) 16 22] 14 24) 0 24"

definition sample_tolerated_ast :: jsval where
  "sample_tolerated_ast =
     with_errors [tolerated_error 32 1 ''Unexpected token b'']
       (Program
       [sample_tolerated_decl,
        ExpressionStatement
              (AssignmentExpression ''='' (Identifier ''x'' 25 26)
               (ObjectExpression [Property (Identifier ''a'' 30 31) (Identifier ''a'' 30 31) True 30 31, Property (Identifier ''b'' 32 33) (Identifier ''b'' 32 33) True 32 33] 29 34) 25 34) 25 35]
       [token ''Keyword'' ''function'' 0 8, token ''Identifier'' ''f'' 9 10,
        token ''Punctuator'' ''('' 10 11, token ''Identifier'' ''p'' 11 12,
        token ''Punctuator'' '')'' 12 13, token ''Punctuator'' ''{'' 14 15,
        token ''Identifier'' ''p'' 16 17, token ''Punctuator'' ''<'' 18 19,
        token ''Numeric'' ''5'' 20 21, token ''Punctuator'' '';'' 21 22,
        token ''Punctuator'' ''}'' 23 24, token ''Identifier'' ''x'' 25 26,
        token ''Punctuator'' ''='' 27 28, token ''Punctuator'' ''{'' 29 30,
        token ''Identifier'' ''a'' 30 31, token ''Identifier'' ''b'' 32 33,
        token ''Punctuator'' ''}'' 33 34, token ''Punctuator'' '';'' 34 35]
       0 35)"

text \<open>\<^verbatim>\<open>function f(s) { s.indexOf("a") == 1e10; }\<close>\<close>

definition sample_loop_src :: string where
  "sample_loop_src = (''function f(s) { s.indexOf('' @ [CHR 0x22] @ ''a'' @ [CHR 0x22] @ '') == 1e10; }'')"

definition sample_loop_node :: jsval where
  "sample_loop_node =
     BinaryExpression ''=='' (CallExpression
       (MemberExpression (Identifier ''s'' 16 17)
          (Identifier ''indexOf'' 18 25) 16 25)
       [Literal (JStr ''a'')
          ([CHR 0x22] @ ''a'' @ [CHR 0x22]) 26 29] 16 30)
       (Literal (JNum 10000000000) ''1e10'' 34 38) 16 38"

definition sample_loop_decl :: jsval where
  "sample_loop_decl =
     FunctionDeclaration (Identifier ''f'' 9 10) [Identifier ''s'' 11 12]
       (BlockStatement [ExpressionStatement sample_loop_node 16 39] 14 41) 0 41"

definition sample_loop_ast :: jsval where
  "sample_loop_ast =
     Program
       [sample_loop_decl]
       [token ''Keyword'' ''function'' 0 8, token ''Identifier'' ''f'' 9 10,
        token ''Punctuator'' ''('' 10 11, token ''Identifier'' ''s'' 11 12,
        token ''Punctuator'' '')'' 12 13, token ''Punctuator'' ''{'' 14 15,
        token ''Identifier'' ''s'' 16 17, token ''Punctuator'' ''.'' 17 18,
        token ''Identifier'' ''indexOf'' 18 25, token ''Punctuator'' ''('' 25 26,
        token ''String'' ([CHR 0x22] @ ''a'' @ [CHR 0x22]) 26 29, token ''Punctuator'' '')'' 29 30,
        token ''Punctuator'' ''=='' 31 33, token ''Numeric'' ''1e10'' 34 38,
        token ''Punctuator'' '';'' 38 39, token ''Punctuator'' ''}'' 40 41]
       0 41"

text \<open>\<^verbatim>\<open>function f(s) { s.indexOf("b") == 1e1; }\<close>\<close>

definition sample_index_src :: string where
  "sample_index_src = (''function f(s) { s.indexOf('' @ [CHR 0x22] @ ''b'' @ [CHR 0x22] @ '') == 1e1; }'')"

definition sample_index_node :: jsval where
  "sample_index_node =
     BinaryExpression ''=='' (CallExpression
       (MemberExpression (Identifier ''s'' 16 17)
          (Identifier ''indexOf'' 18 25) 16 25)
       [Literal (JStr ''b'')
          ([CHR 0x22] @ ''b'' @ [CHR 0x22]) 26 29] 16 30)
       (Literal (JNum 10) ''1e1'' 34 37) 16 37"

definition sample_index_decl :: jsval where
  "sample_index_decl =
     FunctionDeclaration (Identifier ''f'' 9 10) [Identifier ''s'' 11 12]
       (BlockStatement [ExpressionStatement sample_index_node 16 38] 14 40) 0 40"

definition sample_index_ast :: jsval where
  "sample_index_ast =
     Program
       [sample_index_decl]
       [token ''Keyword'' ''function'' 0 8, token ''Identifier'' ''f'' 9 10,
        token ''Punctuator'' ''('' 10 11, token ''Identifier'' ''s'' 11 12,
        token ''Punctuator'' '')'' 12 13, token ''Punctuator'' ''{'' 14 15,
        token ''Identifier'' ''s'' 16 17, token ''Punctuator'' ''.'' 17 18,
        token ''Identifier'' ''indexOf'' 18 25, token ''Punctuator'' ''('' 25 26,
        token ''String'' ([CHR 0x22] @ ''b'' @ [CHR 0x22]) 26 29, token ''Punctuator'' '')'' 29 30,
        token ''Punctuator'' ''=='' 31 33, token ''Numeric'' ''1e1'' 34 37,
        token ''Punctuator'' '';'' 37 38, token ''Punctuator'' ''}'' 39 40]
       0 40"


section \<open>Basic facts\<close>

lemma and_then_Inl [simp]: "and_then (Inl e) f = Inl e"
  by (simp add: and_then_def)

lemma and_then_Inr [simp]: "and_then (Inr x) f = f x"
  by (simp add: and_then_def)

lemma and_then_eq_Inr: "and_then m f = Inr y \<longleftrightarrow> (\<exists>x. m = Inr x \<and> f x = Inr y)"
  by (cases m) simp_all

lemma lodash_get_of_get_path: "get_path v ks = Inr w \<Longrightarrow> lodash_get v ks = w"
proof (induction ks arbitrary: v)
  case Nil
  then show ?case by simp
next
  case (Cons k ks)
  then show ?case by (cases "get_prop v k") simp_all
qed

lemma get_path_single: "get_path v [k] = get_prop v k"
  by (cases "get_prop v k") simp_all

lemma get_path_Cons: "get_prop v k = Inr w \<Longrightarrow> get_path v (k # ks) = get_path w ks"
  by simp

lemma push_constraint_pushed:
  "has_list s fname idt \<Longrightarrow> push_constraint fname idt c s = Inr (pushed fname idt [c] s)"
  by (auto simp: has_list_def push_constraint_def pushed_def split: option.splits)

lemma has_list_pushed: "has_list s fname idt \<Longrightarrow> has_list (pushed fname idt new s) fname idt"
  by (auto simp: has_list_def pushed_def update_conv' split: option.splits)

lemma pushed_pushed:
  "has_list s fname idt \<Longrightarrow> pushed fname idt ys (pushed fname idt xs s) = pushed fname idt (xs @ ys) s"
  by (auto simp: has_list_def pushed_def update_conv' split: option.splits)

lemma pushed_Nil: "pushed fname idt [] s = s"
  by (auto simp: pushed_def update_triv split: option.splits)

lemma push_all_pushed:
  "has_list s fname idt \<Longrightarrow> push_all fname idt new s = Inr (pushed fname idt new s)"
  unfolding push_all_def
proof (induction new arbitrary: s)
  case Nil
  then show ?case by (simp add: pushed_Nil)
next
  case (Cons c new)
  have "for_each (push_constraint fname idt) (c # new) s
        = for_each (push_constraint fname idt) new (pushed fname idt [c] s)"
    using Cons.prems by (simp add: push_constraint_pushed)
  also have "\<dots> = Inr (pushed fname idt new (pushed fname idt [c] s))"
    using Cons.prems by (intro Cons.IH has_list_pushed)
  finally show ?case using Cons.prems by (simp add: pushed_pushed)
qed

lemma strict_eq_JStr [simp]: "strict_eq (JStr a) v \<longleftrightarrow> v = JStr a"
  by (auto simp: strict_eq_def)

lemma strict_eq_JStr2 [simp]: "strict_eq v (JStr a) \<longleftrightarrow> v = JStr a"
  by (auto simp: strict_eq_def)

lemma lodash_includes_JStr: "lodash_includes xs (JStr a) \<longleftrightarrow> JStr a \<in> set xs"
  by (auto simp: lodash_includes_def list_ex_iff)

lemma strict_eq_JStr_iff: "strict_eq v w \<Longrightarrow> v = w"
  by (simp add: strict_eq_def)

lemma lodash_includes_mem: "lodash_includes xs v \<Longrightarrow> v \<in> set xs"
  by (auto simp: lodash_includes_def list_ex_iff)

lemma get_prop_JStr_truthy: "get_prop v k = Inr (JStr x) \<Longrightarrow> truthy v"
  by (cases v) (simp_all split: option.splits)

declare lodash_get.simps [simp del] get_path.simps [simp del]

lemma for_each_append:
  "for_each f (xs @ ys) s = and_then (for_each f xs s) (for_each f ys)"
proof (induction xs arbitrary: s)
  case Nil
  show ?case by simp
next
  case (Cons x xs)
  show ?case by (cases "f x s") (simp_all add: Cons.IH)
qed

lemma for_each_skip: "(\<And>x t. x \<in> set xs \<Longrightarrow> f x t = Inr t) \<Longrightarrow> for_each f xs s = Inr s"
  by (induction xs) simp_all



subsection \<open>Decimal numerals\<close>

lemma digit_char_table:
  "\<forall>d \<in> set [0 ..< 10]. digit_val (digit_char d) = Some d \<and> digit_char d \<in> set ''0123456789''"
  by code_simp

lemma digit_char_mem: "d < 10 \<Longrightarrow> digit_char d \<in> set ''0123456789''"
  using digit_char_table by simp

lemma digit_val_digit_char: "d < 10 \<Longrightarrow> digit_val (digit_char d) = Some d"
  using digit_char_table by simp

lemma dec_digits: "c \<in> set (dec n) \<Longrightarrow> c \<in> set ''0123456789''"
proof (induction n rule: dec.induct)
  case (1 n)
  show ?case
  proof (cases "n < 10")
    case True
    with "1.prems" show ?thesis
      using digit_char_mem [of n] by (simp add: dec.simps [of n])
  next
    case False
    with "1.prems" have "c \<in> set (dec (n div 10)) \<or> c = digit_char (n mod 10)"
      by (auto simp add: dec.simps [of n])
    then show ?thesis
      using "1.IH" [OF False] digit_char_mem [of "n mod 10"] by auto
  qed
qed

lemma dec_not_Nil: "dec n \<noteq> []"
  by (simp add: dec.simps [of n])

lemma digits_value_snoc:
  "digits_value r (ds @ [c]) = digits_value r ds * int r + int (the (digit_val c))"
  by (simp add: digits_value_def)

lemma digits_value_dec: "digits_value 10 (dec n) = int n"
proof (induction n rule: dec.induct)
  case (1 n)
  show ?case
  proof (cases "n < 10")
    case True
    then show ?thesis
      by (simp add: dec.simps [of n] digits_value_def digit_val_digit_char)
  next
    case False
    have "int n = int (n div 10) * 10 + int (n mod 10)"
      by (simp add: zdiv_int zmod_int)
    then show ?thesis
      using "1.IH" [OF False] False
      by (simp add: dec.simps [of n] digits_value_snoc digit_val_digit_char)
  qed
qed

lemma decimal_char_table:
  "\<forall>c \<in> set ''0123456789''. \<not> js_whitespace c \<and> c \<noteq> CHR ''-'' \<and> c \<noteq> CHR ''+''
      \<and> c \<noteq> CHR ''x'' \<and> c \<noteq> CHR ''X'' \<and> radix_digit 10 c"
  by code_simp

lemma decimal_char_facts:
  assumes "c \<in> set ''0123456789''"
  shows "\<not> js_whitespace c" "c \<noteq> CHR ''-''" "c \<noteq> CHR ''+''" "c \<noteq> CHR ''x''" "c \<noteq> CHR ''X''"
    "radix_digit 10 c"
  using assms decimal_char_table by blast+

lemma parse_integer_dec: "parse_integer (dec n) = Some (int n)"
proof -
  have ne: "dec n \<noteq> []" by (rule dec_not_Nil)
  have all: "\<forall>c \<in> set (dec n). c \<in> set ''0123456789''"
    using dec_digits by blast
  have hd_in: "hd (dec n) \<in> set ''0123456789''"
    using ne all by (meson hd_in_set)
  have dw: "dropWhile js_whitespace (dec n) = dec n"
    using ne decimal_char_facts(1) [OF hd_in] by (cases "dec n") simp_all
  have nohex: "take 2 (dec n) \<noteq> ''0x''" "take 2 (dec n) \<noteq> ''0X''"
  proof -
    have "set (take 2 (dec n)) \<subseteq> set ''0123456789''"
      using all set_take_subset [of 2 "dec n"] by blast
    then show "take 2 (dec n) \<noteq> ''0x''" "take 2 (dec n) \<noteq> ''0X''"
      by auto
  qed
  have tw: "takeWhile (radix_digit 10) (dec n) = dec n"
    using all decimal_char_facts(6) by (simp add: takeWhile_eq_all_conv)
  show ?thesis
    using ne decimal_char_facts(2,3) [OF hd_in] nohex
    by (simp add: parse_integer_def Let_def dw tw digits_value_dec)
qed

subsection \<open>Doubles\<close>

lemma bit_length_le: "0 \<le> n \<Longrightarrow> n < 2 ^ k \<Longrightarrow> bit_length n \<le> k"
proof (induction k arbitrary: n)
  case 0
  then have "n = 0" by simp
  then show ?case by (simp add: bit_length.simps [of 0])
next
  case (Suc k)
  show ?case
  proof (cases "n \<le> 0")
    case True
    then show ?thesis by (simp add: bit_length.simps [of n])
  next
    case False
    have "n div 2 < 2 ^ k"
      using Suc.prems by simp
    moreover have "0 \<le> n div 2"
      using Suc.prems by simp
    ultimately have "bit_length (n div 2) \<le> k"
      by (intro Suc.IH)
    then show ?thesis
      using False by (simp add: bit_length.simps [of n])
  qed
qed

lemma round_to_double_top:
  "round_to_double (2 ^ 53) = JNum (2 ^ 53)"
  "round_to_double (- (2 ^ 53)) = JNum (- (2 ^ 53))"
  by code_simp+

lemma round_to_double_exact:
  assumes "\<bar>i\<bar> \<le> 2 ^ 53"
  shows "round_to_double i = JNum i"
proof (cases "\<bar>i\<bar> < 2 ^ 53")
  case True
  then have "bit_length \<bar>i\<bar> \<le> 53"
    by (intro bit_length_le) simp_all
  then show ?thesis
    by (simp add: round_to_double_def Let_def)
next
  case False
  with assms have "i = 2 ^ 53 \<or> i = - (2 ^ 53)"
    by (auto simp: abs_if split: if_splits)
  then show ?thesis
    using round_to_double_top by auto
qed

lemma round_to_double_not_NaN: "round_to_double i \<noteq> JNaN"
  by (simp add: round_to_double_def Let_def)

lemma parseInt_NaN: "parseInt s = JNaN \<longleftrightarrow> parse_integer s = None"
  by (cases "parse_integer s") (simp_all add: parseInt_def round_to_double_not_NaN)


lemma parseInt_dec: "n < 2 ^ 53 \<Longrightarrow> parseInt (dec n) = JNum (int n)"
proof -
  assume "n < 2 ^ 53"
  then have "int n < 2 ^ 53"
    by (metis of_nat_less_iff of_nat_numeral of_nat_power)
  then show ?thesis
    by (simp add: parseInt_def parse_integer_dec round_to_double_exact)
qed

subsection \<open>Recognizers on nodes of another kind\<close>

lemma handle_unary_other_type:
  "get_prop child ''type'' = Inr ty \<Longrightarrow> ty \<noteq> JStr ''UnaryExpression''
   \<Longrightarrow> handle_unary buf fname params child s = Inr s"
  by (simp add: handle_unary_def)

lemma is_member_call_other_type:
  "get_prop child ''type'' = Inr ty \<Longrightarrow> ty \<noteq> JStr ''CallExpression''
   \<Longrightarrow> is_member_call child name = Inr False"
  by (simp add: is_member_call_def)

lemma handle_readFileSync_no_call:
  "is_member_call child ''readFileSync'' = Inr False
   \<Longrightarrow> handle_readFileSync buf fname params child s = Inr s"
  by (simp add: handle_readFileSync_def)

lemma handle_readdirSync_no_call:
  "is_member_call child ''readdirSync'' = Inr False
   \<Longrightarrow> handle_readdirSync buf fname params child s = Inr s"
  by (simp add: handle_readdirSync_def)

lemma lodash_get_single: "get_prop v k = Inr w \<Longrightarrow> lodash_get v [k] = w"
  by (simp add: lodash_get.simps)

lemma is_binary_other_type:
  "get_prop child ''type'' = Inr ty \<Longrightarrow> ty \<noteq> JStr ''BinaryExpression'' \<Longrightarrow> \<not> is_binary child ops"
  by (simp add: is_binary_def lodash_get_single)

lemma is_binary_operator:
  "get_prop child ''type'' = Inr (JStr ''BinaryExpression'')
   \<Longrightarrow> get_prop child ''operator'' = Inr (JStr opr)
   \<Longrightarrow> is_binary child ops \<longleftrightarrow> opr \<in> set ops"
  by (auto simp add: is_binary_def lodash_get_single lodash_includes_JStr)

lemma handle_equivalence_not_binary:
  "\<not> is_binary child [''!='', ''!=='', ''=='', ''===''] \<Longrightarrow> handle_equivalence env buf fname params child s = Inr s"
  by (simp add: handle_equivalence_def)

lemma handle_relational_not_binary:
  "\<not> is_binary child [''<'', ''>''] \<Longrightarrow> handle_relational buf fname params child s = Inr s"
  by (simp add: handle_relational_def)

lemma handle_indexOf_not_binary:
  "\<not> is_binary child [''=='', ''!='', ''==='', ''!==''] \<Longrightarrow> handle_indexOf env buf fname params child s = Inr s"
  by (simp add: handle_indexOf_def)

lemma handle_indexOf_left_identifier:
  "get_path child [''left'', ''type''] = Inr (JStr ''Identifier'')
   \<Longrightarrow> handle_indexOf env buf fname params child s = Inr s"
  by (simp add: handle_indexOf_def lodash_get_of_get_path)

subsection \<open>A relational comparison of a parameter\<close>

lemma relational_on_parameter:
  assumes ty: "get_prop child ''type'' = Inr (JStr ''BinaryExpression'')"
    and opr: "get_prop child ''operator'' = Inr (JStr opr)" "opr = ''<'' \<or> opr = ''>''"
    and left: "get_path child [''left'', ''type''] = Inr (JStr ''Identifier'')"
      "get_path child [''left'', ''name''] = Inr (JStr p)"
    and param: "JStr p \<in> set params"
    and texts: "range_text buf child = Inr expr" "right_hand buf child = Inr rightHand"
    and st: "has_list s fname (JStr p)"
  shows "visit_child env buf fname params child s =
           Inr (pushed fname (JStr p)
                  [Constraint (JStr p) (parseInt_plus rightHand (- 1)) fname integer (JStr opr) expr,
                   Constraint (JStr p) (parseInt_plus rightHand 1) fname integer (JStr opr) expr] s)"
proof -
  have 1: "handle_unary buf fname params child s = Inr s"
    by (rule handle_unary_other_type [OF ty]) simp
  have "is_member_call child name = Inr False" for name
    by (rule is_member_call_other_type [OF ty]) simp
  then have 2: "handle_readFileSync buf fname params child s = Inr s"
    and 3: "handle_readdirSync buf fname params child s = Inr s"
    by (simp_all add: handle_readFileSync_no_call handle_readdirSync_no_call)
  have 4: "handle_equivalence env buf fname params child s = Inr s"
    using opr(2) by (intro handle_equivalence_not_binary) (auto simp: is_binary_operator [OF ty opr(1)])
  have 6: "handle_indexOf env buf fname params child t = Inr t" for t
    by (rule handle_indexOf_left_identifier [OF left(1)])
  have bin: "is_binary child [''<'', ''>'']"
    using opr(2) by (auto simp: is_binary_operator [OF ty opr(1)])
  have 5: "handle_relational buf fname params child s =
      Inr (pushed fname (JStr p)
             [Constraint (JStr p) (parseInt_plus rightHand (- 1)) fname integer (JStr opr) expr,
              Constraint (JStr p) (parseInt_plus rightHand 1) fname integer (JStr opr) expr] s)"
    using param st
    by (simp add: handle_relational_def bin lodash_get_of_get_path [OF left(1)]
          lodash_get_of_get_path [OF left(2)] left(2) texts opr(1) lodash_includes_JStr
          push_all_pushed)
  show ?thesis
    by (simp add: visit_child_def 1 2 3 4 5 6)
qed

subsection \<open>A loop over the parameters that meets its parameter once\<close>

lemma count_list_one_split:
  assumes "count_list xs x = 1"
  shows "\<exists>pre post. xs = pre @ x # post \<and> x \<notin> set pre \<and> x \<notin> set post"
proof -
  have "x \<in> set xs"
    using assms count_list_0_iff [of xs x] by auto
  then obtain pre post where split: "xs = pre @ x # post" "x \<notin> set pre"
    by (meson split_list_first)
  have "count_list pre x = 0"
    using split(2) by (simp add: count_list_0_iff)
  then have "count_list post x = 0"
    using assms split(1) by simp
  then have "x \<notin> set post"
    by (simp add: count_list_0_iff)
  with split show ?thesis by blast
qed

lemma for_each_single_hit:
  assumes "\<And>q t. q \<in> set pre \<union> set post \<Longrightarrow> f q t = Inr t"
  shows "for_each f (pre @ x # post) s = f x s"
proof -
  have pre: "for_each f pre s = Inr s"
    using assms by (intro for_each_skip) simp
  have post: "for_each f post t = Inr t" for t
    using assms by (intro for_each_skip) simp
  show ?thesis
    by (cases "f x s") (simp_all add: for_each_append pre post)
qed

lemma for_each_count_one:
  assumes "count_list xs x = 1" and "\<And>q t. q \<noteq> x \<Longrightarrow> f q t = Inr t"
  shows "for_each f xs s = f x s"
proof -
  obtain pre post where split: "xs = pre @ x # post" "x \<notin> set pre" "x \<notin> set post"
    using count_list_one_split [OF assms(1)] by blast
  have "f q t = Inr t" if "q \<in> set pre \<union> set post" for q t
    using that split(2,3) by (intro assms(2)) auto
  then show ?thesis
    unfolding split(1) by (rule for_each_single_hit)
qed

lemma is_member_call_hit:
  assumes "get_prop child ''type'' = Inr (JStr ''CallExpression'')"
    and "get_path child [''callee'', ''property'', ''name''] = Inr (JStr n)"
  shows "is_member_call child m = Inr (n = m)"
proof -
  from assms(2) obtain c pr where c: "get_prop child ''callee'' = Inr c"
    and pr: "get_prop c ''property'' = Inr pr" and n: "get_prop pr ''name'' = Inr (JStr n)"
    by (auto simp: get_path.simps and_then_eq_Inr)
  have "truthy pr"
    using n by (rule get_prop_JStr_truthy)
  then show ?thesis
    using assms(1) c pr n by (auto simp: is_member_call_def get_path.simps)
qed

subsection \<open>A call of \<^verbatim>\<open>readFileSync\<close> or \<^verbatim>\<open>readdirSync\<close> on a parameter\<close>

lemma call_other_recognizers:
  assumes "get_prop child ''type'' = Inr (JStr ''CallExpression'')"
  shows "handle_unary buf fname params child s = Inr s"
    and "handle_equivalence env buf fname params child s = Inr s"
    and "handle_relational buf fname params child s = Inr s"
    and "handle_indexOf env buf fname params child s = Inr s"
proof -
  show "handle_unary buf fname params child s = Inr s"
    by (rule handle_unary_other_type [OF assms]) simp
  have nb: "\<not> is_binary child ops" for ops
    by (rule is_binary_other_type [OF assms]) simp
  show "handle_equivalence env buf fname params child s = Inr s"
    by (rule handle_equivalence_not_binary [OF nb])
  show "handle_relational buf fname params child s = Inr s"
    by (rule handle_relational_not_binary [OF nb])
  show "handle_indexOf env buf fname params child s = Inr s"
    by (rule handle_indexOf_not_binary [OF nb])
qed


lemma has_list_rng [simp]: "has_list (s\<lparr>rng := k\<rparr>) fname idt = has_list s fname idt"
  by (simp add: has_list_def)

subsection \<open>The walk as a loop over the visited objects\<close>

lemma and_then_return [simp]: "and_then m Inr = m"
  by (cases m) simp_all

lemma for_each_Nil_fun [simp]: "for_each f [] = Inr"
  by (rule ext) simp

lemma traverse_for_each:
  "traverse v obj s = for_each v (visited obj) s"
  "traverse_children v cs s = for_each v (visited_children cs) s"
proof (induction v obj s and v cs s rule: traverse_traverse_children.induct)
  case (1 visitor fs s)
  then show ?case by (cases "visitor (JObj fs) s") simp_all
next
  case (2 visitor xs s)
  then show ?case by (cases "visitor (JArr xs) s") simp_all
next
  case (5 visitor child rest s)
  show ?case
  proof (cases "is_object child")
    case True
    with 5 show ?thesis
      by (cases "for_each visitor (visited child) s") (simp_all add: for_each_append)
  next
    case False
    with 5 show ?thesis by simp
  qed
qed simp_all

lemma for_each_invariant:
  assumes "P s"
    and "\<And>x t t'. x \<in> set xs \<Longrightarrow> P t \<Longrightarrow> f x t = Inr t' \<Longrightarrow> P t'"
    and "for_each f xs s = Inr s'"
  shows "P s'"
  using assms
proof (induction xs arbitrary: s)
  case Nil
  then show ?case by simp
next
  case (Cons x xs)
  from Cons.prems(3) obtain t where t: "f x s = Inr t" and rest: "for_each f xs t = Inr s'"
    by (auto simp: and_then_eq_Inr)
  have "P t"
    using Cons.prems(1,2) t by auto
  then show ?case
    using Cons.prems(2) rest by (intro Cons.IH [of t]) auto
qed

lemma ident_Constraint [simp]: "ident (Constraint i v f k opr e) = i"
  and funcName_Constraint [simp]: "funcName (Constraint i v f k opr e) = f"
  and kind_Constraint [simp]: "kind (Constraint i v f k opr e) = k"
  and val_Constraint [simp]: "val (Constraint i v f k opr e) = v"
  by (simp_all add: Constraint_def)

lemma push_all_emits:
  assumes "emits fname params s0 s" and "idt \<in> set params"
    and "\<forall>c \<in> set cs. ident c = idt \<and> funcName c = fname"
    and "push_all fname idt cs s = Inr s'"
  shows "emits fname params s0 s'"
  using assms(4) unfolding push_all_def
proof (rule for_each_invariant [rotated 2])
  show "emits fname params s0 s" by fact
next
  fix c t t'
  assume "c \<in> set cs" "emits fname params s0 t" "push_constraint fname idt c t = Inr t'"
  then show "emits fname params s0 t'"
    using assms(2,3) by (intro emits_push [of fname params s0 t idt c t']) auto
qed

lemma push_all_emitsD:
  "push_all fname idt cs t = Inr t' \<Longrightarrow> emits fname params s t \<Longrightarrow> idt \<in> set params
   \<Longrightarrow> \<forall>c \<in> set cs. ident c = idt \<and> funcName c = fname \<Longrightarrow> emits fname params s t'"
  using push_all_emits by blast

lemma handle_unary_emits:
  assumes "handle_unary buf fname params child s = Inr s'"
  shows "emits fname params s s'"
proof -
  have body: "emits fname params s t'"
    if "p \<in> set params" "emits fname params s t" and run: "(\<lambda>p s.
         and_then (get_path child [''argument'', ''object'', ''name'']) (\<lambda>oname.
         if \<not> strict_eq oname p then Inr s else
         and_then (get_path child [''argument'', ''property'', ''name'']) (\<lambda>property_name.
         and_then (get_prop child ''operator'') (\<lambda>opr.
           push_all fname p
             [Constraint p
                (JStr (js_toString p @ '' = {'' @ [CHR 0x27] @ js_toString property_name
                       @ [CHR 0x27] @ '': true}''))
                fname string opr expr,
              Constraint p (JBool False) fname string opr expr] s)))) p t = Inr t'"
    for p t t' expr
    using run that(1,2)
    by (auto simp: and_then_eq_Inr split: if_splits elim!: push_all_emitsD)
  show ?thesis
    using assms unfolding handle_unary_def
    by (auto simp: and_then_eq_Inr split: if_splits
          intro: emits_none for_each_invariant [where P = "emits fname params s", OF emits_none body])
qed

lemma fs_call_emits:
  assumes "for_each (\<lambda>p s.
         and_then (first_argument_name child) (\<lambda>aname.
         if \<not> strict_eq aname p then Inr s else
         and_then (get_prop child ''operator'') (\<lambda>opr. push_all fname p (cs p opr) s)))
         params s = Inr s'"
    and "\<And>p opr. \<forall>c \<in> set (cs p opr). ident c = p \<and> funcName c = fname"
  shows "emits fname params s s'"
  using emits_none _ assms(1)
proof (rule for_each_invariant)
  fix p t t'
  assume "p \<in> set params" "emits fname params s t"
    and "and_then (first_argument_name child) (\<lambda>aname.
         if \<not> strict_eq aname p then Inr t else
         and_then (get_prop child ''operator'') (\<lambda>opr. push_all fname p (cs p opr) t)) = Inr t'"
  then show "emits fname params s t'"
    using assms(2) by (auto simp: and_then_eq_Inr split: if_splits elim!: push_all_emitsD)
qed

lemma handle_readFileSync_emits:
  assumes "handle_readFileSync buf fname params child s = Inr s'"
  shows "emits fname params s s'"
proof (cases "is_member_call child ''readFileSync'' = Inr True")
  case True
  with assms obtain expr where "for_each (\<lambda>p s.
         and_then (first_argument_name child) (\<lambda>aname.
         if \<not> strict_eq aname p then Inr s else
         and_then (get_prop child ''operator'') (\<lambda>opr.
           push_all fname p ((\<lambda>p opr.
             [Constraint p (JStr ([CHR 0x27] @ ''pathContent/file1'' @ [CHR 0x27]))
                fname fileWithContent opr expr,
              Constraint p (JStr ([CHR 0x27] @ ''pathContent/someDir'' @ [CHR 0x27]))
                fname fileWithContent opr expr,
              Constraint p (JStr ([CHR 0x27] @ ''file'' @ [CHR 0x27]))
                fname fileExists opr expr]) p opr) s)))
         params s = Inr s'"
    by (auto simp: handle_readFileSync_def and_then_eq_Inr)
  then show ?thesis
    by (rule fs_call_emits) simp
next
  case False
  with assms have "s' = s"
    by (auto simp: handle_readFileSync_def and_then_eq_Inr split: if_splits)
  then show ?thesis by (simp add: emits_none)
qed

lemma handle_readdirSync_emits:
  assumes "handle_readdirSync buf fname params child s = Inr s'"
  shows "emits fname params s s'"
proof (cases "is_member_call child ''readdirSync'' = Inr True")
  case True
  with assms obtain expr where "for_each (\<lambda>p s.
         and_then (first_argument_name child) (\<lambda>aname.
         if \<not> strict_eq aname p then Inr s else
         and_then (get_prop child ''operator'') (\<lambda>opr.
           push_all fname p ((\<lambda>p opr.
             [Constraint p (JStr ([CHR 0x27] @ ''emptyDir'' @ [CHR 0x27]))
                fname fileExists opr expr,
              Constraint p (JStr ([CHR 0x27] @ ''nonEmptyDir'' @ [CHR 0x27]))
                fname fileExists opr expr]) p opr) s)))
         params s = Inr s'"
    by (auto simp: handle_readdirSync_def and_then_eq_Inr)
  then show ?thesis
    by (rule fs_call_emits) simp
next
  case False
  with assms have "s' = s"
    by (auto simp: handle_readdirSync_def and_then_eq_Inr split: if_splits)
  then show ?thesis by (simp add: emits_none)
qed

lemma includes_path_mem:
  "lodash_includes params (lodash_get child ks) \<Longrightarrow> get_path child ks = Inr idt \<Longrightarrow> idt \<in> set params"
  using lodash_includes_mem lodash_get_of_get_path by blast

lemma push_all_on_included:
  assumes "push_all fname idt cs s = Inr s'"
    and "lodash_includes params (lodash_get child ks)" and "get_path child ks = Inr idt"
    and "\<forall>c \<in> set cs. ident c = idt \<and> funcName c = fname"
  shows "emits fname params s s'"
  using assms(1) emits_none includes_path_mem [OF assms(2,3)] assms(4)
  by (rule push_all_emitsD)

lemma handle_relational_emits:
  assumes "handle_relational buf fname params child s = Inr s'"
  shows "emits fname params s s'"
proof (cases "lodash_includes params (lodash_get child [''left'', ''name''])")
  case True
  show ?thesis
    using assms unfolding handle_relational_def
    by (auto simp: and_then_eq_Inr True split: if_splits
          intro: emits_none elim!: push_all_on_included [OF _ True])
next
  case False
  then have "s' = s"
    using assms unfolding handle_relational_def
    by (auto simp: and_then_eq_Inr split: if_splits)
  then show ?thesis by (simp add: emits_none)
qed

lemma handle_indexOf_emits:
  assumes "handle_indexOf env buf fname params child s = Inr s'"
  shows "emits fname params s s'"
proof (cases "lodash_includes params (lodash_get child [''left'', ''callee'', ''object'', ''name''])")
  case True
  show ?thesis
    using assms unfolding handle_indexOf_def
    by (auto simp: and_then_eq_Inr True Let_def split: if_splits option.splits
          intro: emits_none elim!: push_all_on_included [OF _ True])
next
  case False
  then have "s' = s"
    using assms unfolding handle_indexOf_def
    by (auto simp: and_then_eq_Inr Let_def split: if_splits option.splits)
  then show ?thesis by (simp add: emits_none)
qed

lemma handle_equivalence_emits:
  assumes "handle_equivalence env buf fname params child s = Inr s'"
  shows "emits fname params s s'"
proof (cases "lodash_includes params (lodash_get child [''left'', ''name''])")
  case True
  show ?thesis
    using assms unfolding handle_equivalence_def
    by (auto simp: and_then_eq_Inr True split: if_splits
          intro: emits_none elim!: push_all_on_included [OF _ True])
next
  case False
  show ?thesis
  proof (cases "length params = 1")
    case True
    then have mem: "params ! 0 \<in> set params" by simp
    have start: "emits fname params s (s\<lparr>rng := Suc (rng s)\<rparr>)"
      by (intro emits_random emits_none)
    show ?thesis
      using assms \<open>\<not> lodash_includes params (lodash_get child [''left'', ''name''])\<close> True
      unfolding handle_equivalence_def
      by (auto simp: and_then_eq_Inr Let_def split: if_splits option.splits
            intro: emits_none elim!: push_all_emitsD [OF _ start mem])
  next
    case nl: False
    then have "s' = s"
      using assms \<open>\<not> lodash_includes params (lodash_get child [''left'', ''name''])\<close>
      unfolding handle_equivalence_def
      by (auto simp: and_then_eq_Inr split: if_splits)
    then show ?thesis by (simp add: emits_none)
  qed
qed

lemma emits_trans:
  assumes "emits fname params s t" "emits fname params t u"
  shows "emits fname params s u"
  using assms(2,1)
  by (induction rule: emits.induct) (auto intro: emits.intros)

lemma visit_child_emits:
  assumes "visit_child env buf fname params child s = Inr s'"
  shows "emits fname params s s'"
proof -
  from assms obtain s1 s2 s3 s4 s5 where
    "handle_unary buf fname params child s = Inr s1"
    "handle_readFileSync buf fname params child s1 = Inr s2"
    "handle_readdirSync buf fname params child s2 = Inr s3"
    "handle_equivalence env buf fname params child s3 = Inr s4"
    "handle_relational buf fname params child s4 = Inr s5"
    "handle_indexOf env buf fname params child s5 = Inr s'"
    unfolding visit_child_def by (auto simp: and_then_eq_Inr)
  then have "emits fname params s s1" "emits fname params s1 s2" "emits fname params s2 s3"
    "emits fname params s3 s4" "emits fname params s4 s5" "emits fname params s5 s'"
    by (simp_all add: handle_unary_emits handle_readFileSync_emits handle_readdirSync_emits
          handle_equivalence_emits handle_relational_emits handle_indexOf_emits)
  then show ?thesis
    by (meson emits_trans)
qed

lemma inner_walk_emits:
  assumes "traverse (visit_child env buf fname params) node s = Inr s'"
  shows "emits fname params s s'"
  using emits_none _ assms [unfolded traverse_for_each]
proof (rule for_each_invariant)
  fix x t t'
  assume "emits fname params s t" "visit_child env buf fname params x t = Inr t'"
  then show "emits fname params s t'"
    using visit_child_emits emits_trans by blast
qed

subsection \<open>Invariants of the extraction\<close>

lemma map_of_param_table: "map_of (param_table fc) k = map_option fr_params (map_of fc k)"
  by (induction fc) (auto simp: param_table_def)

lemma keys_param_table: "map fst (param_table fc) = map fst fc"
  by (induction fc) (auto simp: param_table_def)

lemma param_table_update:
  "param_table (AList.update k fr fc) = AList.update k (fr_params fr) (param_table fc)"
  by (induction fc) (auto simp: param_table_def)

lemma param_table_update_same:
  assumes "map_of fc k = Some fr" "fr_params fr' = fr_params fr"
  shows "param_table (AList.update k fr' fc) = param_table fc"
  using assms by (simp add: param_table_update map_of_param_table update_triv)

lemma push_constraint_effect:
  assumes "push_constraint fname idt c s = Inr s'"
  obtains fr cs where "map_of (functionConstraints s) (js_toString fname) = Some fr"
    and "map_of (fr_constraints fr) (js_toString idt) = Some cs"
    and "s' = s\<lparr>functionConstraints :=
                  AList.update (js_toString fname)
                    (fr\<lparr>fr_constraints :=
                          AList.update (js_toString idt) (cs @ [c]) (fr_constraints fr)\<rparr>)
                    (functionConstraints s)\<rparr>"
  using assms by (auto simp: push_constraint_def split: option.splits)

lemma keys_update_present:
  "map_of al k = Some v \<Longrightarrow> map fst (AList.update k v' al) = map fst al"
  by (simp add: update_keys map_of_eq_None_iff [symmetric] del: map_of_eq_None_iff)

lemma push_preserves:
  assumes push: "push_constraint fname idt c s = Inr s'"
    and c: "idt \<in> set params" "ident c = idt" "funcName c = fname"
    and rec: "map_of (param_table (functionConstraints s)) (js_toString fname) = Some params"
    and inv: "keys_match (functionConstraints s)" "idents_declared (functionConstraints s)"
  shows "param_table (functionConstraints s') = param_table (functionConstraints s)"
    and "keys_match (functionConstraints s')"
    and "idents_declared (functionConstraints s')"
proof -
  from push obtain fr cs where fr: "map_of (functionConstraints s) (js_toString fname) = Some fr"
    and cs: "map_of (fr_constraints fr) (js_toString idt) = Some cs"
    and s': "s' = s\<lparr>functionConstraints :=
                  AList.update (js_toString fname)
                    (fr\<lparr>fr_constraints :=
                          AList.update (js_toString idt) (cs @ [c]) (fr_constraints fr)\<rparr>)
                    (functionConstraints s)\<rparr>"
    by (rule push_constraint_effect)
  have params: "fr_params fr = params"
    using rec fr by (simp add: map_of_param_table)
  show "param_table (functionConstraints s') = param_table (functionConstraints s)"
    unfolding s' using fr by (simp add: param_table_update_same)
  show "keys_match (functionConstraints s')"
    unfolding keys_match_def s'
  proof (intro allI impI)
    fix n r
    assume "map_of (functionConstraints
              (s\<lparr>functionConstraints :=
                  AList.update (js_toString fname)
                    (fr\<lparr>fr_constraints :=
                          AList.update (js_toString idt) (cs @ [c]) (fr_constraints fr)\<rparr>)
                    (functionConstraints s)\<rparr>)) n = Some r"
    then have "(n = js_toString fname \<and> r = fr\<lparr>fr_constraints :=
                          AList.update (js_toString idt) (cs @ [c]) (fr_constraints fr)\<rparr>)
               \<or> map_of (functionConstraints s) n = Some r"
      by (auto simp: update_conv' split: if_splits)
    then show "map fst (fr_constraints r) = map fst (initial_lists (fr_params r))"
      using inv(1) fr cs by (auto simp: keys_match_def keys_update_present)
  qed
  show "idents_declared (functionConstraints s')"
    unfolding idents_declared_def s'
  proof (intro allI impI)
    fix n r k xs x
    assume n: "map_of (functionConstraints
              (s\<lparr>functionConstraints :=
                  AList.update (js_toString fname)
                    (fr\<lparr>fr_constraints :=
                          AList.update (js_toString idt) (cs @ [c]) (fr_constraints fr)\<rparr>)
                    (functionConstraints s)\<rparr>)) n = Some r"
      and k: "map_of (fr_constraints r) k = Some xs" and x: "x \<in> set xs"
    show "ident x \<in> set (fr_params r) \<and> js_toString (ident x) = k \<and> js_toString (funcName x) = n"
    proof (cases "n = js_toString fname")
      case False
      with n have "map_of (functionConstraints s) n = Some r"
        by (simp add: update_conv')
      with inv(2) k x show ?thesis
        unfolding idents_declared_def by blast
    next
      case True
      with n have r: "r = fr\<lparr>fr_constraints :=
                          AList.update (js_toString idt) (cs @ [c]) (fr_constraints fr)\<rparr>"
        by (simp add: update_conv')
      show ?thesis
      proof (cases "k = js_toString idt")
        case False
        with k r have "map_of (fr_constraints fr) k = Some xs"
          by (simp add: update_conv')
        with inv(2) fr x True r show ?thesis
          unfolding idents_declared_def by fastforce
      next
        case kk: True
        with k r have "xs = cs @ [c]"
          by (simp add: update_conv')
        with x have "x \<in> set cs \<or> x = c" by auto
        then show ?thesis
        proof
          assume "x \<in> set cs"
          with inv(2) fr cs True kk r show ?thesis
            unfolding idents_declared_def by fastforce
        next
          assume "x = c"
          with c params True kk r show ?thesis by simp
        qed
      qed
    qed
  qed
qed

lemma emits_preserves:
  assumes "emits fname params s s'"
    and "map_of (param_table (functionConstraints s)) (js_toString fname) = Some params"
    and "keys_match (functionConstraints s)" "idents_declared (functionConstraints s)"
  shows "param_table (functionConstraints s') = param_table (functionConstraints s)
         \<and> keys_match (functionConstraints s') \<and> idents_declared (functionConstraints s')"
  using assms
proof (induction rule: emits.induct)
  case emits_none
  then show ?case by simp
next
  case (emits_random t k)
  then show ?case by simp
next
  case (emits_push t idt c t')
  then have ih: "param_table (functionConstraints t) = param_table (functionConstraints s)"
    "keys_match (functionConstraints t)" "idents_declared (functionConstraints t)"
    by simp_all
  have rec: "map_of (param_table (functionConstraints t)) (js_toString fname) = Some params"
    using ih(1) emits_push.prems(1) by simp
  show ?case
    using push_preserves [OF emits_push.hyps(5,2,3,4) rec ih(2,3)] ih(1) by simp
qed

lemma update_fresh: "k \<notin> fst ` set al \<Longrightarrow> AList.update k v al = al @ [(k, v)]"
  by (induction al) auto

lemma fold_update_fresh:
  assumes "distinct (map fst acc @ map f ps)" "length vs = length ps"
  shows "fold (\<lambda>(k, v). AList.update (f k) v) (zip ps vs) acc
         = acc @ map (\<lambda>(p, v). (f p, v)) (zip ps vs)"
  using assms
proof (induction ps arbitrary: acc vs)
  case Nil
  then show ?case by simp
next
  case (Cons p ps)
  then obtain v vs' where vs: "vs = v # vs'" "length vs' = length ps"
    by (cases vs) auto
  have fresh: "f p \<notin> fst ` set acc"
    using Cons.prems(1) by auto
  have "distinct (map fst (acc @ [(f p, v)]) @ map f ps)"
    using Cons.prems(1) by auto
  then show ?case
    using Cons.IH [of "acc @ [(f p, v)]" vs'] vs fresh by (simp add: update_fresh)
qed

lemma initial_lists_distinct_names:
  "distinct (map js_toString ps) \<Longrightarrow> initial_lists ps = map (\<lambda>p. (js_toString p, [])) ps"
  unfolding initial_lists_def zipObject_def
  by (subst fold_update_fresh) (simp_all add: zip_map2 map_idI comp_def zip_same_conv_map)

lemma fold_update_values:
  "map_of (fold (\<lambda>(k, v). AList.update (f k) v) kvs acc) k = Some v
   \<Longrightarrow> v \<in> snd ` set kvs \<or> map_of acc k = Some v"
proof (induction kvs arbitrary: acc)
  case Nil
  then show ?case by simp
next
  case (Cons kv kvs)
  obtain a b where kv: "kv = (a, b)" by (cases kv)
  from Cons.prems have "v \<in> snd ` set kvs \<or> map_of (AList.update (f a) b acc) k = Some v"
    using Cons.IH [of "AList.update (f a) b acc"] by (simp add: kv)
  then show ?case
    by (auto simp: kv update_conv' split: if_splits)
qed

lemma initial_lists_empty: "map_of (initial_lists ps) k = Some cs \<Longrightarrow> cs = []"
  unfolding initial_lists_def zipObject_def
  by (drule fold_update_values) (auto dest: set_zip_rightD)



lemma visit_node_cases:
  assumes "visit_node env buf n s = Inr s'"
  obtains (skip) "\<not> is_declaration n" "s' = s"
  | (decl) fname params where "is_declaration n" "functionName n = Inr fname"
      "node_params n = Inr params"
      "traverse (visit_child env buf fname params) n
         (s\<lparr>functionConstraints :=
              AList.update (js_toString fname)
                \<lparr>fr_constraints = initial_lists params, fr_params = params\<rparr>
                (functionConstraints s)\<rparr>) = Inr s'"
  using assms unfolding visit_node_def is_declaration_def initial_lists_def
  by (auto simp: and_then_eq_Inr split: if_splits)

lemma declaration_entry:
  assumes inv: "state_invariant s"
  shows "keys_match (functionConstraints
           (s\<lparr>functionConstraints :=
                AList.update (js_toString fname)
                  \<lparr>fr_constraints = initial_lists params, fr_params = params\<rparr>
                  (functionConstraints s)\<rparr>))"
    and "idents_declared (functionConstraints
           (s\<lparr>functionConstraints :=
                AList.update (js_toString fname)
                  \<lparr>fr_constraints = initial_lists params, fr_params = params\<rparr>
                  (functionConstraints s)\<rparr>))"
    and "map_of (param_table (functionConstraints
           (s\<lparr>functionConstraints :=
                AList.update (js_toString fname)
                  \<lparr>fr_constraints = initial_lists params, fr_params = params\<rparr>
                  (functionConstraints s)\<rparr>))) (js_toString fname) = Some params"
proof -
  let ?fr = "\<lparr>fr_constraints = initial_lists params, fr_params = params\<rparr>"
  let ?s1 = "s\<lparr>functionConstraints :=
                AList.update (js_toString fname) ?fr (functionConstraints s)\<rparr>"
  show "map_of (param_table (functionConstraints ?s1)) (js_toString fname) = Some params"
    by (simp add: param_table_update update_conv')
  show "keys_match (functionConstraints ?s1)"
    using inv by (auto simp: state_invariant_def keys_match_def update_conv' split: if_splits)
  show "idents_declared (functionConstraints ?s1)"
    unfolding idents_declared_def
  proof (intro allI impI)
    fix m r k cs c
    assume m: "map_of (functionConstraints ?s1) m = Some r"
      and k: "map_of (fr_constraints r) k = Some cs" and c: "c \<in> set cs"
    show "ident c \<in> set (fr_params r) \<and> js_toString (ident c) = k \<and> js_toString (funcName c) = m"
    proof (cases "m = js_toString fname")
      case True
      with m have "r = ?fr" by (simp add: update_conv')
      with k have "cs = []" by (auto dest: initial_lists_empty)
      with c show ?thesis by simp
    next
      case False
      with m have "map_of (functionConstraints s) m = Some r" by (simp add: update_conv')
      with inv k c show ?thesis
        unfolding state_invariant_def idents_declared_def by blast
    qed
  qed
qed

lemma declaration_visit:
  assumes run: "traverse (visit_child env buf fname params) n
         (s\<lparr>functionConstraints :=
              AList.update (js_toString fname)
                \<lparr>fr_constraints = initial_lists params, fr_params = params\<rparr>
                (functionConstraints s)\<rparr>) = Inr s'"
    and inv: "state_invariant s"
  shows "state_invariant s'"
    and "param_table (functionConstraints s')
         = AList.update (js_toString fname) params (param_table (functionConstraints s))"
proof -
  let ?fr = "\<lparr>fr_constraints = initial_lists params, fr_params = params\<rparr>"
  let ?s1 = "s\<lparr>functionConstraints :=
                AList.update (js_toString fname) ?fr (functionConstraints s)\<rparr>"
  have table1: "param_table (functionConstraints ?s1)
                = AList.update (js_toString fname) params (param_table (functionConstraints s))"
    by (simp add: param_table_update)
  have rec: "map_of (param_table (functionConstraints ?s1)) (js_toString fname) = Some params"
    by (simp add: param_table_update update_conv')
  have km: "keys_match (functionConstraints ?s1)"
    using inv by (auto simp: state_invariant_def keys_match_def update_conv' split: if_splits)
  have idd: "idents_declared (functionConstraints ?s1)"
    unfolding idents_declared_def
  proof (intro allI impI)
    fix m r k cs c
    assume m: "map_of (functionConstraints ?s1) m = Some r"
      and k: "map_of (fr_constraints r) k = Some cs" and c: "c \<in> set cs"
    show "ident c \<in> set (fr_params r) \<and> js_toString (ident c) = k \<and> js_toString (funcName c) = m"
    proof (cases "m = js_toString fname")
      case True
      with m have "r = ?fr" by (simp add: update_conv')
      with k have "cs = []" by (auto dest: initial_lists_empty)
      with c show ?thesis by simp
    next
      case False
      with m have "map_of (functionConstraints s) m = Some r" by (simp add: update_conv')
      with inv k c show ?thesis
        unfolding state_invariant_def idents_declared_def by blast
    qed
  qed
  have em: "emits fname params ?s1 s'"
    using run by (rule inner_walk_emits)
  have res: "param_table (functionConstraints s') = param_table (functionConstraints ?s1)
         \<and> keys_match (functionConstraints s') \<and> idents_declared (functionConstraints s')"
    using em rec km idd by (rule emits_preserves)
  show "param_table (functionConstraints s')
         = AList.update (js_toString fname) params (param_table (functionConstraints s))"
    using res table1 by simp
  have "distinct (map fst (AList.update (js_toString fname) params
                               (param_table (functionConstraints s))))"
    using inv by (intro distinct_update) (simp add: state_invariant_def keys_param_table)
  then have "distinct (map fst (param_table (functionConstraints s')))"
    using res table1 by simp
  then have "distinct (map fst (functionConstraints s'))"
    by (simp only: keys_param_table)
  then show "state_invariant s'"
    using res by (simp add: state_invariant_def)
qed

lemma visit_node_invariant:
  assumes "visit_node env buf n s = Inr s'" "state_invariant s"
  shows "state_invariant s'"
  using assms(1)
proof (cases rule: visit_node_cases)
  case skip
  with assms(2) show ?thesis by simp
next
  case (decl fname params)
  then show ?thesis using declaration_visit(1) assms(2) by blast
qed


lemma constraints_cases:
  assumes "constraints env seed filePath = Inr res"
  obtains buf tree s' where "readFileSync env filePath = Inr buf" "esprima_parse env buf = Inr tree"
    "traverse (visit_node env buf) tree \<lparr>functionConstraints = [], rng = seed\<rparr> = Inr s'"
    "res = own_properties (functionConstraints s')"
  using assms unfolding constraints_def by (auto simp: and_then_eq_Inr)

lemma state_invariant_start: "state_invariant \<lparr>functionConstraints = [], rng = seed\<rparr>"
  by (simp add: state_invariant_def keys_match_def idents_declared_def)

lemma map_of_own_properties:
  "map_of (own_properties al) k = (if k = ''__proto__'' then None else map_of al k)"
  by (simp add: own_properties_def delete_conv')

lemma own_properties_Some: "map_of (own_properties al) k = Some v \<Longrightarrow> map_of al k = Some v"
  by (simp add: map_of_own_properties split: if_splits)


subsection \<open>The lists of the parameters during the inner walk\<close>

text \<open>The inner walk of a declaration starts in a state that has a list for every
  parameter, and nothing a recognizer does removes a list: whenever the inner visitor runs,
  \<open>has_list\<close> holds for the function and each of its parameters.\<close>

lemma fold_update_keys:
  "fst ` set (fold (\<lambda>(k, v). AList.update (f k) v) kvs acc) = f ` fst ` set kvs \<union> fst ` set acc"
proof (induction kvs arbitrary: acc)
  case Nil
  show ?case by simp
next
  case (Cons kv kvs)
  obtain a b where kv: "kv = (a, b)" by (cases kv)
  show ?case
    unfolding kv by (auto simp add: Cons.IH dom_update)
qed

lemma initial_lists_has_key:
  assumes "p \<in> set params"
  shows "map_of (initial_lists params) (js_toString p) \<noteq> None"
proof -
  have "fst ` set (zip params (map (\<lambda>p. [] :: constraint list) params)) = set params"
    by (induction params) auto
  then have "js_toString p \<in> fst ` set (initial_lists params)"
    using assms unfolding initial_lists_def zipObject_def
    by (simp add: fold_update_keys)
  then show ?thesis
    by (simp add: map_of_eq_None_iff)
qed

lemma has_list_at_entry:
  assumes "p \<in> set params"
  shows "has_list
           (s\<lparr>functionConstraints :=
                AList.update (js_toString fname)
                  \<lparr>fr_constraints = initial_lists params, fr_params = params\<rparr>
                  (functionConstraints s)\<rparr>) fname p"
  using initial_lists_has_key [OF assms] by (simp add: has_list_def update_conv')

lemma emits_keeps_list:
  assumes "emits fname params s s'" "has_list s f p"
  shows "has_list s' f p"
  using assms
proof (induction rule: emits.induct)
  case emits_none
  then show ?case by simp
next
  case (emits_random t k)
  then show ?case by simp
next
  case (emits_push t idt c t')
  from emits_push.hyps(5) obtain fr cs where
    fr: "map_of (functionConstraints t) (js_toString fname) = Some fr"
    and cs: "map_of (fr_constraints fr) (js_toString idt) = Some cs"
    and t': "t' = t\<lparr>functionConstraints :=
                  AList.update (js_toString fname)
                    (fr\<lparr>fr_constraints :=
                          AList.update (js_toString idt) (cs @ [c]) (fr_constraints fr)\<rparr>)
                    (functionConstraints t)\<rparr>"
    by (rule push_constraint_effect)
  have "has_list t f p"
    using emits_push by simp
  then show ?case
    unfolding t' using fr cs
    by (auto simp: has_list_def update_conv' split: option.splits if_splits)
qed

subsection \<open>The record of a declaration\<close>

lemma visit_child_other_kind:
  assumes "get_prop child ''type'' = Inr ty"
    and "ty \<noteq> JStr ''UnaryExpression''" "ty \<noteq> JStr ''CallExpression''"
      "ty \<noteq> JStr ''BinaryExpression''"
  shows "visit_child env buf fname params child s = Inr s"
proof -
  have nb: "\<not> is_binary child ops" for ops
    using assms(1,4) by (rule is_binary_other_type)
  have nc: "is_member_call child name = Inr False" for name
    using assms(1,3) by (rule is_member_call_other_type)
  show ?thesis
    unfolding visit_child_def
    by (simp add: handle_unary_other_type [OF assms(1,2)] handle_readFileSync_no_call [OF nc]
          handle_readdirSync_no_call [OF nc] handle_equivalence_not_binary [OF nb]
          handle_relational_not_binary [OF nb] handle_indexOf_not_binary [OF nb])
qed

lemma emits_other_record:
  assumes "emits fname params s s'" "k \<noteq> js_toString fname"
  shows "map_of (functionConstraints s') k = map_of (functionConstraints s) k"
  using assms
proof (induction rule: emits.induct)
  case emits_none
  show ?case by simp
next
  case (emits_random t j)
  then show ?case by simp
next
  case (emits_push t idt c t')
  from emits_push.hyps(5) obtain fr cs where
    "t' = t\<lparr>functionConstraints :=
                  AList.update (js_toString fname)
                    (fr\<lparr>fr_constraints :=
                          AList.update (js_toString idt) (cs @ [c]) (fr_constraints fr)\<rparr>)
                    (functionConstraints t)\<rparr>"
    by (rule push_constraint_effect)
  then show ?case
    using emits_push.IH emits_push.prems by (simp add: update_conv')
qed

lemma visit_node_other_record:
  assumes "visit_node env buf m s = Inr s'" "declared_key m \<noteq> Some k"
  shows "map_of (functionConstraints s') k = map_of (functionConstraints s) k"
  using assms(1)
proof (cases rule: visit_node_cases)
  case skip
  then show ?thesis by simp
next
  case (decl fname params)
  then have k: "k \<noteq> js_toString fname"
    using assms(2) by (auto simp: declared_key_def)
  have "emits fname params
          (s\<lparr>functionConstraints :=
              AList.update (js_toString fname)
                \<lparr>fr_constraints = initial_lists params, fr_params = params\<rparr>
                (functionConstraints s)\<rparr>) s'"
    using decl(4) by (rule inner_walk_emits)
  from emits_other_record [OF this k] k show ?thesis
    by (simp add: update_conv')
qed

lemma later_visits_keep_record:
  assumes "for_each (visit_node env buf) after s = Inr s'"
    and "Some k \<notin> set (map declared_key after)"
  shows "map_of (functionConstraints s') k = map_of (functionConstraints s) k"
proof -
  have "map_of (functionConstraints s) k = map_of (functionConstraints s) k" by simp
  then show ?thesis
    using _ assms(1)
  proof (rule for_each_invariant [where P = "\<lambda>t. map_of (functionConstraints t) k
                                                  = map_of (functionConstraints s) k"])
    fix m t t'
    assume "m \<in> set after" "map_of (functionConstraints t) k = map_of (functionConstraints s) k"
      "visit_node env buf m t = Inr t'"
    moreover from this(1) assms(2) have "declared_key m \<noteq> Some k"
      by (metis image_eqI set_map)
    ultimately show "map_of (functionConstraints t') k = map_of (functionConstraints s) k"
      using visit_node_other_record by metis
  qed
qed

lemma for_each_split:
  assumes "for_each f (xs @ x # ys) s = Inr s'"
  obtains s1 s2 where "for_each f xs s = Inr s1" "f x s1 = Inr s2" "for_each f ys s2 = Inr s'"
  using assms by (auto simp: for_each_append and_then_eq_Inr)

lemma outer_loop_invariant:
  assumes "for_each (visit_node env buf) xs s = Inr s'" "state_invariant s"
  shows "state_invariant s'"
  using assms(2) _ assms(1)
  by (rule for_each_invariant) (rule visit_node_invariant)

lemma visit_node_keeps_keys:
  assumes "visit_node env buf m s = Inr s'" "state_invariant s"
    and "map_of (functionConstraints s) k \<noteq> None"
  shows "map_of (functionConstraints s') k \<noteq> None"
  using assms(1)
proof (cases rule: visit_node_cases)
  case skip
  with assms(3) show ?thesis by simp
next
  case (decl fname params)
  have "map_of (param_table (functionConstraints s')) k \<noteq> None"
    using declaration_visit(2) [OF decl(4) assms(2)] assms(3)
    by (simp add: update_conv' map_of_param_table)
  then show ?thesis
    by (simp add: map_of_param_table)
qed

lemma declaration_gets_record:
  assumes "visit_node env buf m s = Inr s'" "state_invariant s" "declared_key m = Some k"
  shows "map_of (functionConstraints s') k \<noteq> None"
  using assms(1)
proof (cases rule: visit_node_cases)
  case skip
  with assms(3) show ?thesis by (simp add: declared_key_def)
next
  case (decl fname params)
  then have k: "k = js_toString fname"
    using assms(3) by (simp add: declared_key_def)
  have "map_of (param_table (functionConstraints s')) k \<noteq> None"
    using declaration_visit(2) [OF decl(4) assms(2)] by (simp add: update_conv' k)
  then show ?thesis
    by (simp add: map_of_param_table)
qed

lemma every_declaration_has_record:
  assumes run: "for_each (visit_node env buf) xs s = Inr s'" and inv: "state_invariant s"
    and m: "m \<in> set xs" "declared_key m = Some k"
  shows "map_of (functionConstraints s') k \<noteq> None"
proof -
  from m(1) obtain before after where xs: "xs = before @ m # after"
    by (meson split_list)
  from run obtain s1 s2 where
    before: "for_each (visit_node env buf) before s = Inr s1"
    and visit: "visit_node env buf m s1 = Inr s2"
    and after: "for_each (visit_node env buf) after s2 = Inr s'"
    unfolding xs by (rule for_each_split)
  have inv1: "state_invariant s1"
    using before inv by (rule outer_loop_invariant)
  have inv2: "state_invariant s2"
    using visit inv1 by (rule visit_node_invariant)
  have start: "state_invariant s2 \<and> map_of (functionConstraints s2) k \<noteq> None"
    using inv2 declaration_gets_record [OF visit inv1 m(2)] by simp
  have "state_invariant s' \<and> map_of (functionConstraints s') k \<noteq> None"
    using start _ after
  proof (rule for_each_invariant)
    fix x t t'
    assume "state_invariant t \<and> map_of (functionConstraints t) k \<noteq> None"
      "visit_node env buf x t = Inr t'"
    then show "state_invariant t' \<and> map_of (functionConstraints t') k \<noteq> None"
      using visit_node_invariant visit_node_keeps_keys by blast
  qed
  then show ?thesis by simp
qed

subsection \<open>Two runs side by side\<close>

lemma alike_simps [simp]:
  "alike R (Inl e) m \<longleftrightarrow> m = Inl e"
  "alike R (Inr a) (Inr b) \<longleftrightarrow> R a b"
  "alike R (Inr a) (Inl e) \<longleftrightarrow> False"
  by (simp_all add: alike_def)

lemma alike_Inr: "R s1 s2 \<Longrightarrow> alike R (Inr s1) (Inr s2)"
  by simp

lemma alike_Inl: "alike R (Inl e) (Inl e)"
  by simp

lemma alike_InrD:
  assumes "alike R (Inr a) m"
  obtains b where "m = Inr b" "R a b"
  using assms by (cases m) simp_all

lemma alike_and_then:
  assumes "alike R m1 m2" and "\<And>t1 t2. R t1 t2 \<Longrightarrow> alike Q (f t1) (g t2)"
  shows "alike Q (and_then m1 f) (and_then m2 g)"
  using assms by (cases m1; cases m2) simp_all

lemma alike_and_then_pure:
  assumes "\<And>x. m = Inr x \<Longrightarrow> alike R (f x) (g x)"
  shows "alike R (and_then m f) (and_then m g)"
  using assms by (cases m) simp_all

lemma alike_if:
  assumes "c \<Longrightarrow> alike R a1 a2" "\<not> c \<Longrightarrow> alike R b1 b2"
  shows "alike R (if c then a1 else b1) (if c then a2 else b2)"
  using assms by simp

lemma alike_case_option:
  assumes "m = None \<Longrightarrow> alike R a1 a2" "\<And>x. m = Some x \<Longrightarrow> alike R (b1 x) (b2 x)"
  shows "alike R (case m of None \<Rightarrow> a1 | Some x \<Rightarrow> b1 x) (case m of None \<Rightarrow> a2 | Some x \<Rightarrow> b2 x)"
  using assms by (cases m) simp_all

lemma alike_for_each:
  assumes "\<And>x t1 t2. x \<in> set xs \<Longrightarrow> R t1 t2 \<Longrightarrow> alike R (f x t1) (g x t2)"
    and "R s1 s2"
  shows "alike R (for_each f xs s1) (for_each g xs s2)"
  using assms
proof (induction xs arbitrary: s1 s2)
  case Nil
  then show ?case by simp
next
  case (Cons x xs)
  have first: "alike R (f x s1) (g x s2)"
    using Cons.prems by simp
  show ?case
    unfolding for_each.simps using first
  proof (rule alike_and_then)
    fix t1 t2
    assume "R t1 t2"
    then show "alike R (for_each f xs t1) (for_each g xs t2)"
      using Cons.prems(1) by (intro Cons.IH) auto
  qed
qed

lemma kept_by_stepsD:
  assumes "kept_by_steps fname R C"
  shows "R t1 t2 \<Longrightarrow> R (t1\<lparr>rng := k1\<rparr>) (t2\<lparr>rng := k2\<rparr>)"
    and "R t1 t2 \<Longrightarrow> C c1 c2
         \<Longrightarrow> alike R (push_constraint fname idt c1 t1) (push_constraint fname idt c2 t2)"
    and "C c c"
    and "C (synthesized p inner g1 f opr e) (synthesized p inner g2 f opr e)"
  using assms unfolding kept_by_steps_def by blast+

lemma alike_push_all:
  assumes k: "kept_by_steps fname R C" and "R s1 s2" "list_all2 C cs1 cs2"
  shows "alike R (push_all fname idt cs1 s1) (push_all fname idt cs2 s2)"
  using assms(3,2) unfolding push_all_def
proof (induction arbitrary: s1 s2 rule: list_all2_induct)
  case Nil
  then show ?case by simp
next
  case (Cons c1 cs1 c2 cs2)
  have first: "alike R (push_constraint fname idt c1 s1) (push_constraint fname idt c2 s2)"
    using Cons.prems Cons.hyps(1) by (rule kept_by_stepsD(2) [OF k])
  show ?case
    unfolding for_each.simps using first
    by (rule alike_and_then) (rule Cons.IH)
qed

lemmas alike_rules =
  alike_and_then_pure alike_if alike_case_option alike_for_each alike_Inr alike_Inl

lemma handle_unary_alike:
  assumes k: "kept_by_steps fname R C" and R: "R s1 s2"
  shows "alike R (handle_unary buf fname params child s1)
                 (handle_unary buf fname params child s2)"
  unfolding handle_unary_def
  by (intro alike_rules alike_push_all [OF k] R) (simp_all add: kept_by_stepsD(3) [OF k])

lemma handle_readFileSync_alike:
  assumes k: "kept_by_steps fname R C" and R: "R s1 s2"
  shows "alike R (handle_readFileSync buf fname params child s1)
                 (handle_readFileSync buf fname params child s2)"
  unfolding handle_readFileSync_def
  by (intro alike_rules alike_push_all [OF k] R) (simp_all add: kept_by_stepsD(3) [OF k])

lemma handle_readdirSync_alike:
  assumes k: "kept_by_steps fname R C" and R: "R s1 s2"
  shows "alike R (handle_readdirSync buf fname params child s1)
                 (handle_readdirSync buf fname params child s2)"
  unfolding handle_readdirSync_def
  by (intro alike_rules alike_push_all [OF k] R) (simp_all add: kept_by_stepsD(3) [OF k])

lemma handle_relational_alike:
  assumes k: "kept_by_steps fname R C" and R: "R s1 s2"
  shows "alike R (handle_relational buf fname params child s1)
                 (handle_relational buf fname params child s2)"
  unfolding handle_relational_def
  by (intro alike_rules alike_push_all [OF k] R) (simp_all add: kept_by_stepsD(3) [OF k])

lemma loop_rounds_memory: "max_rounds env1 = max_rounds env2 \<Longrightarrow> loop_rounds env1 = loop_rounds env2"
  by (rule ext) (simp add: loop_rounds_def split: number_text.splits option.splits)

lemma handle_indexOf_alike:
  assumes k: "kept_by_steps fname R C" and R: "R s1 s2"
    and m: "max_rounds env1 = max_rounds env2"
  shows "alike R (handle_indexOf env1 buf fname params child s1)
                 (handle_indexOf env2 buf fname params child s2)"
  unfolding handle_indexOf_def Let_def loop_rounds_memory [OF m]
  by (intro alike_rules alike_push_all [OF k] R) (simp_all add: kept_by_stepsD(3) [OF k])

lemma handle_equivalence_alike:
  assumes k: "kept_by_steps fname R C" and R: "R s1 s2"
  shows "alike R (handle_equivalence env1 buf fname params child s1)
                 (handle_equivalence env2 buf fname params child s2)"
  unfolding handle_equivalence_def Let_def
  by (intro alike_rules alike_push_all [OF k] R kept_by_stepsD(1) [OF k])
    (simp_all add: kept_by_stepsD(3) [OF k] kept_by_stepsD(4) [OF k, unfolded synthesized_def, simplified])

lemma visit_child_alike:
  assumes k: "kept_by_steps fname R C" and R: "R s1 s2"
    and m: "max_rounds env1 = max_rounds env2"
  shows "alike R (visit_child env1 buf fname params child s1)
                 (visit_child env2 buf fname params child s2)"
  unfolding visit_child_def
  by (intro alike_and_then [where R = R and Q = R] handle_unary_alike [OF k]
        handle_readFileSync_alike [OF k] handle_readdirSync_alike [OF k]
        handle_equivalence_alike [OF k] handle_relational_alike [OF k]
        handle_indexOf_alike [OF k _ m] R)

lemma inner_walk_alike:
  assumes k: "kept_by_steps fname R C" and R: "R s1 s2"
    and m: "max_rounds env1 = max_rounds env2"
  shows "alike R (traverse (visit_child env1 buf fname params) node s1)
                 (traverse (visit_child env2 buf fname params) node s2)"
  unfolding traverse_for_each
  using _ R by (rule alike_for_each) (rule visit_child_alike [OF k _ m])

subsection \<open>Two extractions with different random strings\<close>

lemma alist_rel_map_of:
  "alist_rel Q l1 l2 \<Longrightarrow> rel_option Q (map_of l1 k) (map_of l2 k)"
  unfolding alist_rel_def
  by (induction rule: list_all2_induct) auto

lemma alist_rel_update:
  "alist_rel Q l1 l2 \<Longrightarrow> Q v1 v2 \<Longrightarrow> alist_rel Q (AList.update k v1 l1) (AList.update k v2 l2)"
  unfolding alist_rel_def
  by (induction rule: list_all2_induct) auto

lemma alist_rel_delete:
  "alist_rel Q l1 l2 \<Longrightarrow> alist_rel Q (AList.delete k l1) (AList.delete k l2)"
  unfolding alist_rel_def
  by (induction rule: list_all2_induct) auto

lemma alist_rel_refl: "(\<And>v. Q v v) \<Longrightarrow> alist_rel Q l l"
  unfolding alist_rel_def by (simp add: list_all2_same)

lemma random_tail_only_refl: "random_tail_only c c"
  by (simp add: random_tail_only_def)

lemma same_record_refl: "same_record random_tail_only fr fr"
  unfolding same_record_def
  by (simp add: alist_rel_refl list_all2_same random_tail_only_refl)

lemma same_result_push:
  assumes R: "same_result C (functionConstraints s1) (functionConstraints s2)" and c: "C c1 c2"
  shows "alike (\<lambda>t1 t2. same_result C (functionConstraints t1) (functionConstraints t2))
           (push_constraint fname idt c1 s1) (push_constraint fname idt c2 s2)"
proof -
  let ?kf = "js_toString fname" and ?ki = "js_toString idt"
  have look: "rel_option (same_record C) (map_of (functionConstraints s1) ?kf)
                (map_of (functionConstraints s2) ?kf)"
    using R unfolding same_result_def by (rule alist_rel_map_of)
  show ?thesis
  proof (cases "map_of (functionConstraints s1) ?kf")
    case None
    with look have "map_of (functionConstraints s2) ?kf = None"
      by simp
    with None show ?thesis by (simp add: push_constraint_def)
  next
    case (Some fr1)
    with look obtain fr2 where fr2: "map_of (functionConstraints s2) ?kf = Some fr2"
      and rec: "same_record C fr1 fr2"
      by (cases "map_of (functionConstraints s2) ?kf") simp_all
    from rec have params: "fr_params fr1 = fr_params fr2"
      and lists: "alist_rel (list_all2 C) (fr_constraints fr1) (fr_constraints fr2)"
      by (simp_all add: same_record_def)
    have look2: "rel_option (list_all2 C) (map_of (fr_constraints fr1) ?ki)
                   (map_of (fr_constraints fr2) ?ki)"
      using lists by (rule alist_rel_map_of)
    show ?thesis
    proof (cases "map_of (fr_constraints fr1) ?ki")
      case None
      with look2 have "map_of (fr_constraints fr2) ?ki = None" by simp
      with None Some fr2 show ?thesis by (simp add: push_constraint_def)
    next
      case cs1: (Some cs1)
      with look2 obtain cs2 where cs2: "map_of (fr_constraints fr2) ?ki = Some cs2"
        and eq: "list_all2 C cs1 cs2"
        by (cases "map_of (fr_constraints fr2) ?ki") simp_all
      have "list_all2 C (cs1 @ [c1]) (cs2 @ [c2])"
        using eq c by (simp add: list_all2_appendI)
      then have "alist_rel (list_all2 C)
                   (AList.update ?ki (cs1 @ [c1]) (fr_constraints fr1))
                   (AList.update ?ki (cs2 @ [c2]) (fr_constraints fr2))"
        using lists by (intro alist_rel_update)
      then have "same_record C
                   (fr1\<lparr>fr_constraints := AList.update ?ki (cs1 @ [c1]) (fr_constraints fr1)\<rparr>)
                   (fr2\<lparr>fr_constraints := AList.update ?ki (cs2 @ [c2]) (fr_constraints fr2)\<rparr>)"
        using params by (simp add: same_record_def)
      then show ?thesis
        using Some fr2 cs1 cs2 R
        by (simp add: push_constraint_def same_result_def alist_rel_update)
    qed
  qed
qed

lemma same_result_kept:
  "kept_by_steps fname
     (\<lambda>t1 t2. same_result random_tail_only (functionConstraints t1) (functionConstraints t2))
     random_tail_only"
  unfolding kept_by_steps_def
proof (intro conjI allI impI)
  fix t1 t2 :: state and idt c1 c2
  assume "same_result random_tail_only (functionConstraints t1) (functionConstraints t2)"
    "random_tail_only c1 c2"
  then show "alike (\<lambda>t1 t2. same_result random_tail_only (functionConstraints t1)
                               (functionConstraints t2))
               (push_constraint fname idt c1 t1) (push_constraint fname idt c2 t2)"
    by (rule same_result_push)
next
  fix p inner g1 g2 f opr e
  show "random_tail_only (synthesized p inner g1 f opr e) (synthesized p inner g2 f opr e)"
    unfolding random_tail_only_def by blast
qed (simp_all add: random_tail_only_refl)

lemma visit_node_alike:
  assumes R: "same_result random_tail_only (functionConstraints s1) (functionConstraints s2)"
    and m: "max_rounds env1 = max_rounds env2"
  shows "alike (\<lambda>t1 t2. same_result random_tail_only (functionConstraints t1)
                           (functionConstraints t2))
           (visit_node env1 buf n s1) (visit_node env2 buf n s2)"
  unfolding visit_node_def
proof (intro alike_and_then_pure alike_if alike_Inr R)
  fix ty fname params
  let ?fr = "\<lparr>fr_constraints = zipObject params (map (\<lambda>p. []) params), fr_params = params\<rparr>"
  let ?t1 = "s1\<lparr>functionConstraints :=
                 AList.update (js_toString fname) ?fr (functionConstraints s1)\<rparr>"
  let ?t2 = "s2\<lparr>functionConstraints :=
                 AList.update (js_toString fname) ?fr (functionConstraints s2)\<rparr>"
  have start: "same_result random_tail_only (functionConstraints ?t1) (functionConstraints ?t2)"
    using R by (simp add: same_result_def alist_rel_update same_record_refl)
  show "alike (\<lambda>t1 t2. same_result random_tail_only (functionConstraints t1)
                           (functionConstraints t2))
          (traverse (visit_child env1 buf fname params) n ?t1)
          (traverse (visit_child env2 buf fname params) n ?t2)"
    using same_result_kept start m by (rule inner_walk_alike)
qed

lemma outer_walk_alike:
  assumes R: "same_result random_tail_only (functionConstraints s1) (functionConstraints s2)"
    and m: "max_rounds env1 = max_rounds env2"
  shows "alike (\<lambda>t1 t2. same_result random_tail_only (functionConstraints t1)
                           (functionConstraints t2))
           (traverse (visit_node env1 buf) root s1) (traverse (visit_node env2 buf) root s2)"
  unfolding traverse_for_each
  using _ R
proof (rule alike_for_each)
  fix x and t1 t2 :: state
  assume "same_result random_tail_only (functionConstraints t1) (functionConstraints t2)"
  then show "alike (\<lambda>t1 t2. same_result random_tail_only (functionConstraints t1)
                               (functionConstraints t2))
               (visit_node env1 buf x t1) (visit_node env2 buf x t2)"
    using m by (rule visit_node_alike)
qed

lemma results_alike:
  assumes "alike (\<lambda>t1 t2. same_result C (functionConstraints t1) (functionConstraints t2)) m1 m2"
  shows "alike (same_result C)
           (and_then m1 (\<lambda>s. Inr (own_properties (functionConstraints s))))
           (and_then m2 (\<lambda>s. Inr (own_properties (functionConstraints s))))"
  using assms
  by (cases m1; cases m2) (simp_all add: same_result_def own_properties_def alist_rel_delete)

subsection \<open>The visitor on a record that already has constraints\<close>

lemma grown_from_kept: "kept_by_steps fname (grown_from fname base) (\<lambda>c1 c2. True)"
  unfolding kept_by_steps_def
proof (intro conjI allI impI)
  fix t u :: state and k1 k2
  assume "grown_from fname base t u"
  then show "grown_from fname base (t\<lparr>rng := k1\<rparr>) (u\<lparr>rng := k2\<rparr>)"
    by (simp add: grown_from_def)
next
  fix t u :: state and idt and c1 c2 :: constraint
  let ?kf = "js_toString fname" and ?ki = "js_toString idt"
  assume "grown_from fname base t u"
  then obtain fr fu where fr: "map_of (functionConstraints t) ?kf = Some fr"
    and fu: "map_of (functionConstraints u) ?kf = Some fu"
    and lists: "\<And>k. rel_option (\<lambda>cs cu. \<exists>old new. map_of base k = Some old \<and> cs = old @ new
                                             \<and> length new = length cu)
                  (map_of (fr_constraints fr) k) (map_of (fr_constraints fu) k)"
    unfolding grown_from_def by blast
  show "alike (grown_from fname base) (push_constraint fname idt c1 t)
          (push_constraint fname idt c2 u)"
  proof (cases "map_of (fr_constraints fr) ?ki")
    case None
    with lists [of ?ki] have "map_of (fr_constraints fu) ?ki = None" by simp
    with None fr fu show ?thesis by (simp add: push_constraint_def)
  next
    case (Some cs)
    with lists [of ?ki] obtain cu old new where cu: "map_of (fr_constraints fu) ?ki = Some cu"
      and old: "map_of base ?ki = Some old" "cs = old @ new" "length new = length cu"
      by (cases "map_of (fr_constraints fu) ?ki") auto
    have "rel_option (\<lambda>cs cu. \<exists>old new. map_of base k = Some old \<and> cs = old @ new
                                             \<and> length new = length cu)
            (map_of (AList.update ?ki (cs @ [c1]) (fr_constraints fr)) k)
            (map_of (AList.update ?ki (cu @ [c2]) (fr_constraints fu)) k)" for k
    proof (cases "k = ?ki")
      case True
      have "map_of base ?ki = Some old \<and> cs @ [c1] = old @ (new @ [c1])
            \<and> length (new @ [c1]) = length (cu @ [c2])"
        using old by simp
      then have Q: "\<exists>old new. map_of base ?ki = Some old \<and> cs @ [c1] = old @ new
                      \<and> length new = length (cu @ [c2])"
        by blast
      show ?thesis
        by (simp only: True update_conv' fun_upd_same option.rel_inject Q)
    next
      case False
      with lists [of k] show ?thesis by (simp add: update_conv')
    qed
    then have "grown_from fname base
                 (t\<lparr>functionConstraints :=
                      AList.update ?kf
                        (fr\<lparr>fr_constraints := AList.update ?ki (cs @ [c1]) (fr_constraints fr)\<rparr>)
                        (functionConstraints t)\<rparr>)
                 (u\<lparr>functionConstraints :=
                      AList.update ?kf
                        (fu\<lparr>fr_constraints := AList.update ?ki (cu @ [c2]) (fr_constraints fu)\<rparr>)
                        (functionConstraints u)\<rparr>)"
      unfolding grown_from_def by (simp add: update_conv')
    then show ?thesis
      using fr fu Some cu by (simp add: push_constraint_def)
  qed
qed simp_all

lemma same_keys_map_of:
  assumes "map fst l1 = map fst l2"
  shows "map_of l1 k = None \<longleftrightarrow> map_of l2 k = None"
proof -
  have "fst ` set l1 = fst ` set l2"
    using assms by (metis set_map)
  then show ?thesis
    by (simp add: map_of_eq_None_iff)
qed

lemma grown_from_start:
  assumes fr: "map_of (functionConstraints t) (js_toString fname) = Some fr"
    and keys: "map fst (fr_constraints fr) = map fst (initial_lists params)"
  shows "grown_from fname (fr_constraints fr) t (entry_state fname params)"
  unfolding grown_from_def
proof (intro exI conjI allI)
  show "map_of (functionConstraints t) (js_toString fname) = Some fr" by fact
  show "map_of (functionConstraints (entry_state fname params)) (js_toString fname)
        = Some \<lparr>fr_constraints = initial_lists params, fr_params = params\<rparr>"
    by (simp add: entry_state_def initial_lists_def)
  fix k
  show "rel_option (\<lambda>cs cu. \<exists>old new. map_of (fr_constraints fr) k = Some old \<and> cs = old @ new
                                             \<and> length new = length cu)
          (map_of (fr_constraints fr) k)
          (map_of (fr_constraints \<lparr>fr_constraints = initial_lists params, fr_params = params\<rparr>) k)"
  proof (cases "map_of (fr_constraints fr) k")
    case None
    with same_keys_map_of [OF keys, of k] show ?thesis by simp
  next
    case (Some cs)
    with same_keys_map_of [OF keys, of k] obtain cu where cu: "map_of (initial_lists params) k = Some cu"
      by auto
    then have "cu = []" by (rule initial_lists_empty)
    with Some cu show ?thesis by simp
  qed
qed

lemma visit_child_unmatched:
  assumes run: "visit_child env buf fname params c t = Inr t'"
    and fr: "map_of (functionConstraints t) (js_toString fname) = Some fr"
    and keys: "map fst (fr_constraints fr) = map fst (initial_lists params)"
    and here: "map_of (fr_constraints fr) (js_toString p) = Some cs"
    and no: "\<not> matched_at env buf fname params p c"
  shows "\<exists>fr'. map_of (functionConstraints t') (js_toString fname) = Some fr'
               \<and> map_of (fr_constraints fr') (js_toString p) = Some cs"
proof -
  have "alike (grown_from fname (fr_constraints fr))
          (visit_child env buf fname params c t)
          (visit_child env buf fname params c (entry_state fname params))"
    using grown_from_kept grown_from_start [OF fr keys] by (rule visit_child_alike) simp
  then obtain u where u: "visit_child env buf fname params c (entry_state fname params) = Inr u"
    and g: "grown_from fname (fr_constraints fr) t' u"
    unfolding run by (rule alike_InrD)
  from g obtain fr' fu where fr': "map_of (functionConstraints t') (js_toString fname) = Some fr'"
    and fu: "map_of (functionConstraints u) (js_toString fname) = Some fu"
    and lists: "\<And>k. rel_option (\<lambda>cs cu. \<exists>old new. map_of (fr_constraints fr) k = Some old
                                             \<and> cs = old @ new \<and> length new = length cu)
                  (map_of (fr_constraints fr') k) (map_of (fr_constraints fu) k)"
    unfolding grown_from_def by blast
  have "map_of (fr_constraints fu) (js_toString p) = Some []"
    using no u fu by (simp add: matched_at_def)
  with lists [of "js_toString p"] here
  have "map_of (fr_constraints fr') (js_toString p) = Some cs"
    by (cases "map_of (fr_constraints fr') (js_toString p)") auto
  with fr' show ?thesis by blast
qed

lemma inner_walk_unmatched:
  assumes run: "for_each (visit_child env buf fname params) cs t = Inr t'"
    and rec: "map_of (param_table (functionConstraints t)) (js_toString fname) = Some params"
    and inv: "keys_match (functionConstraints t)" "idents_declared (functionConstraints t)"
    and fr: "map_of (functionConstraints t) (js_toString fname) = Some fr"
    and here: "map_of (fr_constraints fr) (js_toString p) = Some l"
    and no: "\<forall>c \<in> set cs. \<not> matched_at env buf fname params p c"
  shows "\<exists>fr'. map_of (functionConstraints t') (js_toString fname) = Some fr'
               \<and> map_of (fr_constraints fr') (js_toString p) = Some l"
proof -
  let ?P = "\<lambda>t. map_of (param_table (functionConstraints t)) (js_toString fname) = Some params
              \<and> keys_match (functionConstraints t) \<and> idents_declared (functionConstraints t)
              \<and> (\<exists>fr. map_of (functionConstraints t) (js_toString fname) = Some fr
                       \<and> map_of (fr_constraints fr) (js_toString p) = Some l)"
  have "?P t"
    using rec inv fr here by blast
  then have "?P t'"
    using _ run
  proof (rule for_each_invariant)
    fix c a a'
    assume c: "c \<in> set cs" and P: "?P a" and step: "visit_child env buf fname params c a = Inr a'"
    from P obtain r where r: "map_of (functionConstraints a) (js_toString fname) = Some r"
      "map_of (fr_constraints r) (js_toString p) = Some l"
      by blast
    have rp: "fr_params r = params"
      using P r(1) by (simp add: map_of_param_table)
    have keys: "map fst (fr_constraints r) = map fst (initial_lists params)"
      using P r(1) rp unfolding keys_match_def by blast
    have em: "emits fname params a a'"
      using step by (rule visit_child_emits)
    from P have p1: "map_of (param_table (functionConstraints a)) (js_toString fname) = Some params"
      and p2: "keys_match (functionConstraints a)" and p3: "idents_declared (functionConstraints a)"
      by blast+
    have pres: "param_table (functionConstraints a') = param_table (functionConstraints a)
         \<and> keys_match (functionConstraints a') \<and> idents_declared (functionConstraints a')"
      using em p1 p2 p3 by (rule emits_preserves)
    have "\<not> matched_at env buf fname params p c"
      using no c by blast
    from visit_child_unmatched [OF step r(1) keys r(2) this] pres P
    show "?P a'" by simp
  qed
  then show ?thesis by blast
qed

subsection \<open>Every record comes from a declaration\<close>

lemma visit_node_records_declared:
  assumes run: "visit_node env buf n s = Inr s'" and inv: "state_invariant s"
    and n: "n \<in> set (visited tree)"
    and rd: "records_declared tree (functionConstraints s)"
  shows "records_declared tree (functionConstraints s')"
  using run
proof (cases rule: visit_node_cases)
  case skip
  with rd show ?thesis by simp
next
  case (decl fname params)
  have table: "param_table (functionConstraints s')
         = AList.update (js_toString fname) params (param_table (functionConstraints s))"
    using decl(4) inv by (rule declaration_visit(2))
  have key: "declared_key n = Some (js_toString fname)"
    using decl(1,2) by (simp add: declared_key_def)
  show ?thesis
    unfolding records_declared_def
  proof (intro allI impI)
    fix k fr
    assume fr: "map_of (functionConstraints s') k = Some fr"
    then have look: "map_of (param_table (functionConstraints s')) k = Some (fr_params fr)"
      by (simp add: map_of_param_table)
    show "\<exists>n \<in> set (visited tree). declared_key n = Some k \<and> node_params n = Inr (fr_params fr)"
    proof (cases "k = js_toString fname")
      case True
      with look table have "fr_params fr = params"
        by (simp add: update_conv')
      with n key decl(3) True show ?thesis by blast
    next
      case False
      with look table have "map_of (param_table (functionConstraints s)) k = Some (fr_params fr)"
        by (simp add: update_conv')
      then obtain fr0 where "map_of (functionConstraints s) k = Some fr0" "fr_params fr0 = fr_params fr"
        by (auto simp: map_of_param_table)
      with rd show ?thesis
        unfolding records_declared_def by metis
    qed
  qed
qed

lemma outer_walk_records_declared:
  assumes run: "for_each (visit_node env buf) (visited tree) s = Inr s'"
    and inv: "state_invariant s" and rd: "records_declared tree (functionConstraints s)"
  shows "records_declared tree (functionConstraints s')"
proof -
  have "state_invariant s \<and> records_declared tree (functionConstraints s)"
    using inv rd by simp
  then have "state_invariant s' \<and> records_declared tree (functionConstraints s')"
    using _ run
  proof (rule for_each_invariant)
    fix x t t'
    assume "x \<in> set (visited tree)"
      "state_invariant t \<and> records_declared tree (functionConstraints t)"
      "visit_node env buf x t = Inr t'"
    then show "state_invariant t' \<and> records_declared tree (functionConstraints t')"
      using visit_node_invariant visit_node_records_declared by blast
  qed
  then show ?thesis by simp
qed



section \<open>The properties\<close>

text \<open>
  C1. A recognizer that meets a node without the sub-field it reads should skip the node.
  The code does not: a call of \<^verbatim>\<open>readFileSync\<close> without arguments in a function with a
  parameter, and an equality of a non-parameter with a number in a function of one
  parameter, each end the whole extraction with a TypeError, also when another function of
  the file has constraints to give.
\<close>

theorem missing_subfield_aborts_extraction:
  "constraints (sample_env sample_noargs_src sample_noargs_ast) 0 ''subject.js'' = Inl TypeError
   \<and> constraints (sample_env sample_eq_num_src sample_eq_num_ast) 0 ''subject.js'' = Inl TypeError
   \<and> constraints (sample_env sample_abort_src sample_abort_ast) 0 ''subject.js'' = Inl TypeError"
  by code_simp




text \<open>
  C3, as amended. A call node whose callee is a member expression with the property name
  \<^verbatim>\<open>readFileSync\<close> and whose first argument is a parameter \<open>p\<close> that the function declares
  once makes the visitor append exactly three constraints to the list of \<open>p\<close>, of the kinds
  \<open>fileWithContent\<close>, \<open>fileWithContent\<close>, \<open>fileExists\<close> in that order, whose values name a path
  with content, a directory and a plain file.
\<close>

theorem readFileSync_three_constraints:
  assumes ty: "get_prop child ''type'' = Inr (JStr ''CallExpression'')"
    and callee: "get_path child [''callee'', ''property'', ''name''] = Inr (JStr ''readFileSync'')"
    and arg: "first_argument_name child = Inr (JStr p)"
    and once: "count_list params (JStr p) = 1"
    and texts: "range_text buf child = Inr expr"
    and opr: "get_prop child ''operator'' = Inr opr"
    and st: "has_list s fname (JStr p)"
  shows "visit_child env buf fname params child s =
           Inr (pushed fname (JStr p)
                  [Constraint (JStr p) (JStr ([CHR 0x27] @ ''pathContent/file1'' @ [CHR 0x27]))
                     fname fileWithContent opr expr,
                   Constraint (JStr p) (JStr ([CHR 0x27] @ ''pathContent/someDir'' @ [CHR 0x27]))
                     fname fileWithContent opr expr,
                   Constraint (JStr p) (JStr ([CHR 0x27] @ ''file'' @ [CHR 0x27]))
                     fname fileExists opr expr] s)"
proof -
  have hit: "is_member_call child ''readFileSync'' = Inr True"
    and miss: "is_member_call child ''readdirSync'' = Inr False"
    using is_member_call_hit [OF ty callee] by simp_all
  have 2: "handle_readFileSync buf fname params child s =
           Inr (pushed fname (JStr p)
                  [Constraint (JStr p) (JStr ([CHR 0x27] @ ''pathContent/file1'' @ [CHR 0x27]))
                     fname fileWithContent opr expr,
                   Constraint (JStr p) (JStr ([CHR 0x27] @ ''pathContent/someDir'' @ [CHR 0x27]))
                     fname fileWithContent opr expr,
                   Constraint (JStr p) (JStr ([CHR 0x27] @ ''file'' @ [CHR 0x27]))
                     fname fileExists opr expr] s)"
    unfolding handle_readFileSync_def
    by (simp add: hit texts arg for_each_count_one [OF once] opr push_all_pushed [OF st])
  show ?thesis
    by (simp add: visit_child_def call_other_recognizers [OF ty] 2
          handle_readdirSync_no_call [OF miss])
qed

theorem readFileSync_three_constraints_witness:
  "get_prop sample_read_node ''type'' = Inr (JStr ''CallExpression'')
   \<and> get_path sample_read_node [''callee'', ''property'', ''name''] = Inr (JStr ''readFileSync'')
   \<and> first_argument_name sample_read_node = Inr (JStr ''p'')
   \<and> count_list [JStr ''p''] (JStr ''p'') = 1
   \<and> range_text sample_read_src sample_read_node = Inr ''fs.readFileSync(p)''
   \<and> get_prop sample_read_node ''operator'' = Inr JUndefined
   \<and> has_list (entry_state (JStr ''f'') [JStr ''p'']) (JStr ''f'') (JStr ''p'')
   \<and> visit_child (sample_env sample_read_src sample_read_ast) sample_read_src
         (JStr ''f'') [JStr ''p''] sample_read_node (entry_state (JStr ''f'') [JStr ''p''])
       = Inr (pushed (JStr ''f'') (JStr ''p'')
                [Constraint (JStr ''p'') (JStr ([CHR 0x27] @ ''pathContent/file1'' @ [CHR 0x27]))
                   (JStr ''f'') fileWithContent JUndefined ''fs.readFileSync(p)'',
                 Constraint (JStr ''p'') (JStr ([CHR 0x27] @ ''pathContent/someDir'' @ [CHR 0x27]))
                   (JStr ''f'') fileWithContent JUndefined ''fs.readFileSync(p)'',
                 Constraint (JStr ''p'') (JStr ([CHR 0x27] @ ''file'' @ [CHR 0x27]))
                   (JStr ''f'') fileExists JUndefined ''fs.readFileSync(p)'']
                (entry_state (JStr ''f'') [JStr ''p'']))"
proof -
  have h1: "get_prop sample_read_node ''type'' = Inr (JStr ''CallExpression'')"
    by code_simp
  have h2: "get_path sample_read_node [''callee'', ''property'', ''name''] = Inr (JStr ''readFileSync'')"
    by code_simp
  have h3: "first_argument_name sample_read_node = Inr (JStr ''p'')"
    by code_simp
  have h4: "count_list [JStr ''p''] (JStr ''p'') = 1"
    by simp
  have h5: "range_text sample_read_src sample_read_node = Inr ''fs.readFileSync(p)''"
    by code_simp
  have h6: "get_prop sample_read_node ''operator'' = Inr JUndefined"
    by code_simp
  have h7: "has_list (entry_state (JStr ''f'') [JStr ''p'']) (JStr ''f'') (JStr ''p'')"
    by code_simp
  show ?thesis
    by (intro conjI h1 h2 h3 h4 h5 h6 h7
          readFileSync_three_constraints [OF h1 h2 h3 h4 h5 h6 h7])
qed

text \<open>
  C3 as stated fails when the parameter list names \<open>p\<close> twice, which a sloppy-mode function
  may: the loop over the parameters pushes the three constraints once for each of them. In
  \<^verbatim>\<open>function f(p, p) { fs.readFileSync(p); }\<close> the list of \<open>p\<close> gets six constraints.
\<close>

theorem readFileSync_repeated_parameter_counterexample:
  "constraints (sample_env sample_read_dup_src sample_read_dup_ast) 0 ''subject.js'' =
     Inr [(''f'',
           \<lparr>fr_constraints =
              [(''p'',
                [Constraint (JStr ''p'') (JStr ([CHR 0x27] @ ''pathContent/file1'' @ [CHR 0x27]))
                   (JStr ''f'') fileWithContent JUndefined ''fs.readFileSync(p)'',
                 Constraint (JStr ''p'') (JStr ([CHR 0x27] @ ''pathContent/someDir'' @ [CHR 0x27]))
                   (JStr ''f'') fileWithContent JUndefined ''fs.readFileSync(p)'',
                 Constraint (JStr ''p'') (JStr ([CHR 0x27] @ ''file'' @ [CHR 0x27]))
                   (JStr ''f'') fileExists JUndefined ''fs.readFileSync(p)'',
                 Constraint (JStr ''p'') (JStr ([CHR 0x27] @ ''pathContent/file1'' @ [CHR 0x27]))
                   (JStr ''f'') fileWithContent JUndefined ''fs.readFileSync(p)'',
                 Constraint (JStr ''p'') (JStr ([CHR 0x27] @ ''pathContent/someDir'' @ [CHR 0x27]))
                   (JStr ''f'') fileWithContent JUndefined ''fs.readFileSync(p)'',
                 Constraint (JStr ''p'') (JStr ([CHR 0x27] @ ''file'' @ [CHR 0x27]))
                   (JStr ''f'') fileExists JUndefined ''fs.readFileSync(p)''])],
            fr_params = [JStr ''p'', JStr ''p'']\<rparr>)]"
  by code_simp










text \<open>
  C7, as amended. When the extraction returns, a function declaration whose name is not
  \<^verbatim>\<open>__proto__\<close>, that is the last one walked with its name and whose parameter names \<open>ps\<close> are
  pairwise distinct, has a record under its name, with the parameters \<open>ps\<close> and with exactly
  one list per parameter, in the order of declaration. Every parameter has its list, and
  the list of a parameter for which no recognizer emits a constraint at any object of the
  declaration is empty.
\<close>

theorem function_record_entries:
  assumes ret: "constraints env seed filePath = Inr res"
    and src: "readFileSync env filePath = Inr buf" "esprima_parse env buf = Inr tree"
    and walk: "visited tree = before @ decl # after"
    and decl: "is_declaration decl" "functionName decl = Inr fname" "node_params decl = Inr ps"
    and proto: "js_toString fname \<noteq> ''__proto__''"
    and last: "Some (js_toString fname) \<notin> set (map declared_key after)"
    and names: "distinct (map js_toString ps)"
  shows "\<exists>fr. map_of res (js_toString fname) = Some fr \<and> fr_params fr = ps
              \<and> map fst (fr_constraints fr) = map js_toString ps
              \<and> (\<forall>p \<in> set ps. list_all (\<lambda>c. \<not> matched_at env buf fname ps p c) (visited decl)
                    \<longrightarrow> map_of (fr_constraints fr) (js_toString p) = Some [])"
proof -
  let ?k = "js_toString fname"
  from ret src obtain s' where
    run: "for_each (visit_node env buf) (visited tree) \<lparr>functionConstraints = [], rng = seed\<rparr> = Inr s'"
    and res: "res = own_properties (functionConstraints s')"
    by (auto elim!: constraints_cases simp: traverse_for_each)
  from run obtain s1 s2 where
    before: "for_each (visit_node env buf) before \<lparr>functionConstraints = [], rng = seed\<rparr> = Inr s1"
    and visit: "visit_node env buf decl s1 = Inr s2"
    and after: "for_each (visit_node env buf) after s2 = Inr s'"
    unfolding walk by (rule for_each_split)
  have inv1: "state_invariant s1"
    using before state_invariant_start by (rule outer_loop_invariant)
  let ?s1 = "s1\<lparr>functionConstraints :=
              AList.update ?k \<lparr>fr_constraints = initial_lists ps, fr_params = ps\<rparr>
                (functionConstraints s1)\<rparr>"
  from visit have inner: "traverse (visit_child env buf fname ps) decl ?s1 = Inr s2"
    using decl by (cases rule: visit_node_cases) auto
  note dv = declaration_visit [OF inner inv1]
  note entry = declaration_entry [OF inv1, of fname ps]
  have "map_of (param_table (functionConstraints s2)) ?k = Some ps"
    by (simp add: dv(2) update_conv')
  then obtain fr where fr: "map_of (functionConstraints s2) ?k = Some fr" "fr_params fr = ps"
    by (auto simp: map_of_param_table)
  have keys: "map fst (fr_constraints fr) = map js_toString ps"
    using dv(1) fr names
    by (simp add: state_invariant_def keys_match_def initial_lists_distinct_names comp_def)
  have empty: "map_of (fr_constraints fr) (js_toString p) = Some []"
    if p: "p \<in> set ps" and no: "list_all (\<lambda>c. \<not> matched_at env buf fname ps p c) (visited decl)"
    for p
  proof -
    have start: "map_of (functionConstraints ?s1) ?k
                 = Some \<lparr>fr_constraints = initial_lists ps, fr_params = ps\<rparr>"
      by (simp add: update_conv')
    obtain l where l: "map_of (initial_lists ps) (js_toString p) = Some l"
      using initial_lists_has_key [OF p] by blast
    then have "l = []"
      by (rule initial_lists_empty)
    with l have here: "map_of (fr_constraints \<lparr>fr_constraints = initial_lists ps, fr_params = ps\<rparr>)
                         (js_toString p) = Some []"
      by simp
    have no': "\<forall>c \<in> set (visited decl). \<not> matched_at env buf fname ps p c"
      using no by (simp add: list_all_iff)
    from inner_walk_unmatched [OF inner [unfolded traverse_for_each] entry(3) entry(1,2) start here no']
    obtain fr' where "map_of (functionConstraints s2) ?k = Some fr'"
      "map_of (fr_constraints fr') (js_toString p) = Some []"
      by blast
    with fr(1) show ?thesis by simp
  qed
  have "map_of res ?k = Some fr"
    using later_visits_keep_record [OF after last] fr(1) res proto
    by (simp add: map_of_own_properties)
  then show ?thesis
    using fr(2) keys empty by blast
qed

theorem function_record_entries_witness:
  "constraints (sample_env sample_two_src sample_two_ast) 0 ''subject.js'' =
     Inr [(''f'',
           \<lparr>fr_constraints =
              [(''a'',
                [Constraint (JStr ''a'') (JNum 4) (JStr ''f'') integer (JStr ''<'') ''a < 5'',
                 Constraint (JStr ''a'') (JNum 6) (JStr ''f'') integer (JStr ''<'') ''a < 5'']),
               (''b'', [])],
            fr_params = [JStr ''a'', JStr ''b'']\<rparr>)]
   \<and> readFileSync (sample_env sample_two_src sample_two_ast) ''subject.js'' = Inr sample_two_src
   \<and> esprima_parse (sample_env sample_two_src sample_two_ast) sample_two_src = Inr sample_two_ast
   \<and> visited sample_two_ast
       = take 2 (visited sample_two_ast) @ sample_two_decl # drop 3 (visited sample_two_ast)
   \<and> is_declaration sample_two_decl
   \<and> functionName sample_two_decl = Inr (JStr ''f'')
   \<and> node_params sample_two_decl = Inr [JStr ''a'', JStr ''b'']
   \<and> js_toString (JStr ''f'') \<noteq> ''__proto__''
   \<and> Some (js_toString (JStr ''f'')) \<notin> set (map declared_key (drop 3 (visited sample_two_ast)))
   \<and> distinct (map js_toString [JStr ''a'', JStr ''b''])
   \<and> list_all (\<lambda>c. \<not> matched_at (sample_env sample_two_src sample_two_ast) sample_two_src
                        (JStr ''f'') [JStr ''a'', JStr ''b''] (JStr ''b'') c)
         (visited sample_two_decl)
   \<and> \<not> list_all (\<lambda>c. \<not> matched_at (sample_env sample_two_src sample_two_ast) sample_two_src
                          (JStr ''f'') [JStr ''a'', JStr ''b''] (JStr ''a'') c)
           (visited sample_two_decl)
   \<and> (\<exists>fr. map_of [(''f'',
                      \<lparr>fr_constraints =
                         [(''a'',
                           [Constraint (JStr ''a'') (JNum 4) (JStr ''f'') integer (JStr ''<'') ''a < 5'',
                            Constraint (JStr ''a'') (JNum 6) (JStr ''f'') integer (JStr ''<'') ''a < 5'']),
                          (''b'', [])],
                       fr_params = [JStr ''a'', JStr ''b'']\<rparr>)] ''f'' = Some fr
            \<and> fr_params fr = [JStr ''a'', JStr ''b'']
            \<and> map fst (fr_constraints fr) = [''a'', ''b'']
            \<and> map_of (fr_constraints fr) ''b'' = Some [])"
proof -
  let ?env = "sample_env sample_two_src sample_two_ast"
  let ?res = "[(''f'',
           \<lparr>fr_constraints =
              [(''a'',
                [Constraint (JStr ''a'') (JNum 4) (JStr ''f'') integer (JStr ''<'') ''a < 5'',
                 Constraint (JStr ''a'') (JNum 6) (JStr ''f'') integer (JStr ''<'') ''a < 5'']),
               (''b'', [])],
            fr_params = [JStr ''a'', JStr ''b'']\<rparr>)]"
  have h1: "constraints ?env 0 ''subject.js'' = Inr ?res"
    by code_simp
  have h2: "readFileSync ?env ''subject.js'' = Inr sample_two_src"
    by code_simp
  have h3: "esprima_parse ?env sample_two_src = Inr sample_two_ast"
    by code_simp
  have h4: "visited sample_two_ast
       = take 2 (visited sample_two_ast) @ sample_two_decl # drop 3 (visited sample_two_ast)"
    by code_simp
  have h5: "is_declaration sample_two_decl"
    by code_simp
  have h6: "functionName sample_two_decl = Inr (JStr ''f'')"
    by code_simp
  have h7: "node_params sample_two_decl = Inr [JStr ''a'', JStr ''b'']"
    by code_simp
  have h8: "js_toString (JStr ''f'') \<noteq> ''__proto__''"
    by code_simp
  have h9: "Some (js_toString (JStr ''f'')) \<notin> set (map declared_key (drop 3 (visited sample_two_ast)))"
    by code_simp
  have h10: "distinct (map js_toString [JStr ''a'', JStr ''b''])"
    by simp
  have h11: "list_all (\<lambda>c. \<not> matched_at ?env sample_two_src
                        (JStr ''f'') [JStr ''a'', JStr ''b''] (JStr ''b'') c)
         (visited sample_two_decl)"
    by code_simp
  have h12: "\<not> list_all (\<lambda>c. \<not> matched_at ?env sample_two_src
                          (JStr ''f'') [JStr ''a'', JStr ''b''] (JStr ''a'') c)
           (visited sample_two_decl)"
    by code_simp
  have "\<exists>fr. map_of ?res (js_toString (JStr ''f'')) = Some fr
              \<and> fr_params fr = [JStr ''a'', JStr ''b'']
              \<and> map fst (fr_constraints fr) = map js_toString [JStr ''a'', JStr ''b'']
              \<and> (\<forall>p \<in> set [JStr ''a'', JStr ''b''].
                    list_all (\<lambda>c. \<not> matched_at ?env sample_two_src (JStr ''f'')
                                      [JStr ''a'', JStr ''b''] p c) (visited sample_two_decl)
                    \<longrightarrow> map_of (fr_constraints fr) (js_toString p) = Some [])"
    by (rule function_record_entries [OF h1 h2 h3 h4 h5 h6 h7 h8 h9 h10])
  then obtain fr where fr: "map_of ?res (js_toString (JStr ''f'')) = Some fr"
    "fr_params fr = [JStr ''a'', JStr ''b'']"
    "map fst (fr_constraints fr) = map js_toString [JStr ''a'', JStr ''b'']"
    and all: "\<forall>p \<in> set [JStr ''a'', JStr ''b''].
                    list_all (\<lambda>c. \<not> matched_at ?env sample_two_src (JStr ''f'')
                                      [JStr ''a'', JStr ''b''] p c) (visited sample_two_decl)
                    \<longrightarrow> map_of (fr_constraints fr) (js_toString p) = Some []"
    by blast
  from all h11 have "map_of (fr_constraints fr) (js_toString (JStr ''b'')) = Some []"
    by simp
  with fr have "\<exists>fr. map_of ?res ''f'' = Some fr \<and> fr_params fr = [JStr ''a'', JStr ''b'']
            \<and> map fst (fr_constraints fr) = [''a'', ''b'']
            \<and> map_of (fr_constraints fr) ''b'' = Some []"
    by simp
  then show ?thesis
    using h1 h2 h3 h4 h5 h6 h7 h8 h9 h10 h11 h12 by blast
qed

text \<open>
  C7 as stated fails for a parameter named twice, for a name declared twice and for the name
  \<^verbatim>\<open>__proto__\<close>. The record of \<^verbatim>\<open>function f(a, a) { }\<close> has one list for its two parameters;
  after \<^verbatim>\<open>function f(a) { } function f(a, b) { }\<close> the record of \<^verbatim>\<open>f\<close> is that of the second
  declaration, so the first declaration, of one parameter, finds two lists; and the Result
  for \<^verbatim>\<open>function __proto__(a) { }\<close> has no record at all.
\<close>

theorem function_record_entries_counterexample:
  "constraints (sample_env sample_dup_src sample_dup_ast) 0 ''subject.js'' =
     Inr [(''f'', \<lparr>fr_constraints = [(''a'', [])], fr_params = [JStr ''a'', JStr ''a'']\<rparr>)]
   \<and> constraints (sample_env sample_same_src sample_same_ast) 0 ''subject.js'' =
       Inr [(''f'', \<lparr>fr_constraints = [(''a'', []), (''b'', [])],
                      fr_params = [JStr ''a'', JStr ''b'']\<rparr>)]
   \<and> is_declaration sample_proto_decl
   \<and> functionName sample_proto_decl = Inr (JStr ''__proto__'')
   \<and> node_params sample_proto_decl = Inr [JStr ''a'']
   \<and> constraints (sample_env sample_proto_src sample_proto_ast) 0 ''subject.js'' = Inr []"
  by code_simp

text \<open>
  C8, as amended. When the file cannot be read, or the parser raises on its text, the
  extraction ends with that error and no Result. The parser works in its tolerant mode: a
  syntax error it recovers from does not make it raise, it is recorded in the tree, where
  the extraction does not look. When the extraction returns a Result, the file was read
  and parsed, every function declaration of the tree with a name other than \<^verbatim>\<open>__proto__\<close>
  has its record, and every record is that of a function declaration of the tree. (A run
  can also end with the process out of memory; nothing is said of such a run.)
\<close>

theorem input_errors_abort_extraction:
  "(readFileSync env filePath = Inl e \<longrightarrow> constraints env seed filePath = Inl e)
   \<and> (readFileSync env filePath = Inr buf \<and> esprima_parse env buf = Inl e
        \<longrightarrow> constraints env seed filePath = Inl e)
   \<and> (constraints env seed filePath = Inr res
        \<longrightarrow> (\<exists>buf tree. readFileSync env filePath = Inr buf \<and> esprima_parse env buf = Inr tree
              \<and> (\<forall>n \<in> set (visited tree). \<forall>k. declared_key n = Some k \<and> k \<noteq> ''__proto__''
                    \<longrightarrow> map_of res k \<noteq> None)
              \<and> records_declared tree res))"
proof (intro conjI impI)
  assume "readFileSync env filePath = Inl e"
  then show "constraints env seed filePath = Inl e"
    by (simp add: constraints_def)
next
  assume "readFileSync env filePath = Inr buf \<and> esprima_parse env buf = Inl e"
  then show "constraints env seed filePath = Inl e"
    by (simp add: constraints_def)
next
  assume "constraints env seed filePath = Inr res"
  then obtain buf tree s' where src: "readFileSync env filePath = Inr buf"
    "esprima_parse env buf = Inr tree"
    and run: "traverse (visit_node env buf) tree \<lparr>functionConstraints = [], rng = seed\<rparr> = Inr s'"
    and res: "res = own_properties (functionConstraints s')"
    by (rule constraints_cases)
  have "map_of res k \<noteq> None"
    if "n \<in> set (visited tree)" "declared_key n = Some k \<and> k \<noteq> ''__proto__''" for n k
    using every_declaration_has_record [OF run [unfolded traverse_for_each] state_invariant_start
        that(1), of k] that(2) res
    by (simp add: map_of_own_properties)
  moreover have "records_declared tree (functionConstraints s')"
    using run [unfolded traverse_for_each] state_invariant_start
    by (rule outer_walk_records_declared) (simp add: records_declared_def)
  then have "records_declared tree res"
    unfolding res records_declared_def by (blast dest: own_properties_Some)
  ultimately show "\<exists>buf tree. readFileSync env filePath = Inr buf \<and> esprima_parse env buf = Inr tree
              \<and> (\<forall>n \<in> set (visited tree). \<forall>k. declared_key n = Some k \<and> k \<noteq> ''__proto__''
                    \<longrightarrow> map_of res k \<noteq> None)
              \<and> records_declared tree res"
    using src by blast
qed

theorem input_errors_abort_extraction_witness:
  "readFileSync (sample_env sample_lt_src sample_lt_ast) ''missing.js'' = Inl FileError
   \<and> constraints (sample_env sample_lt_src sample_lt_ast) 0 ''missing.js'' = Inl FileError
   \<and> readFileSync (unparsable_env ''function ('') ''subject.js'' = Inr ''function (''
   \<and> esprima_parse (unparsable_env ''function ('') ''function ('' = Inl SyntaxError
   \<and> constraints (unparsable_env ''function ('') 0 ''subject.js'' = Inl SyntaxError
   \<and> constraints (sample_env sample_lt_src sample_lt_ast) 0 ''subject.js'' =
       Inr [(''f'',
             \<lparr>fr_constraints =
                [(''p'',
                  [Constraint (JStr ''p'') (JNum 4) (JStr ''f'') integer (JStr ''<'') ''p < 5'',
                   Constraint (JStr ''p'') (JNum 6) (JStr ''f'') integer (JStr ''<'') ''p < 5''])],
              fr_params = [JStr ''p'']\<rparr>)]
   \<and> sample_lt_decl \<in> set (visited sample_lt_ast)
   \<and> declared_key sample_lt_decl = Some ''f''
   \<and> ''f'' \<noteq> ''__proto__''
   \<and> map_of [(''f'',
             \<lparr>fr_constraints =
                [(''p'',
                  [Constraint (JStr ''p'') (JNum 4) (JStr ''f'') integer (JStr ''<'') ''p < 5'',
                   Constraint (JStr ''p'') (JNum 6) (JStr ''f'') integer (JStr ''<'') ''p < 5''])],
              fr_params = [JStr ''p'']\<rparr>)] ''f'' \<noteq> None"
proof -
  let ?env = "sample_env sample_lt_src sample_lt_ast"
  let ?bad = "unparsable_env ''function (''"
  let ?res = "[(''f'',
             \<lparr>fr_constraints =
                [(''p'',
                  [Constraint (JStr ''p'') (JNum 4) (JStr ''f'') integer (JStr ''<'') ''p < 5'',
                   Constraint (JStr ''p'') (JNum 6) (JStr ''f'') integer (JStr ''<'') ''p < 5''])],
              fr_params = [JStr ''p'']\<rparr>)]"
  have h1: "readFileSync ?env ''missing.js'' = Inl FileError"
    by code_simp
  have h2: "readFileSync ?bad ''subject.js'' = Inr ''function (''"
    by code_simp
  have h3: "esprima_parse ?bad ''function ('' = Inl SyntaxError"
    by code_simp
  have h4: "constraints ?env 0 ''subject.js'' = Inr ?res"
    by code_simp
  have h5: "sample_lt_decl \<in> set (visited sample_lt_ast)"
    by code_simp
  have h6: "declared_key sample_lt_decl = Some ''f''"
    by code_simp
  have h7: "''f'' \<noteq> ''__proto__''"
    by simp
  have c1: "constraints ?env 0 ''missing.js'' = Inl FileError"
    using input_errors_abort_extraction [of ?env "''missing.js''" FileError 0] h1 by blast
  have c2: "constraints ?bad 0 ''subject.js'' = Inl SyntaxError"
    using input_errors_abort_extraction [of ?bad "''subject.js''" SyntaxError 0 "''function (''"]
      h2 h3 by blast
  have hr: "readFileSync ?env ''subject.js'' = Inr sample_lt_src"
    by code_simp
  have hp: "esprima_parse ?env sample_lt_src = Inr sample_lt_ast"
    by code_simp
  from input_errors_abort_extraction [of ?env "''subject.js''" FileError 0 "[]" ?res] h4
  obtain buf tree where "readFileSync ?env ''subject.js'' = Inr buf"
    and "esprima_parse ?env buf = Inr tree"
    and all: "\<forall>n \<in> set (visited tree). \<forall>k. declared_key n = Some k \<and> k \<noteq> ''__proto__''
                 \<longrightarrow> map_of ?res k \<noteq> None"
    by blast
  with hr hp have "tree = sample_lt_ast"
    by simp
  with all h5 h6 h7 have c3: "map_of ?res ''f'' \<noteq> None"
    by blast
  show ?thesis
    using h1 h2 h3 h4 h5 h6 h7 c1 c2 c3 by simp
qed

text \<open>
  C8 as stated fails on a text with a syntax error the tolerant parser recovers from, on a
  function named \<^verbatim>\<open>__proto__\<close> and on a counting loop too long for the memory. In
  \<^verbatim>\<open>function f(p) { p < 5; } x = {a b};\<close> a comma is missing between \<^verbatim>\<open>a\<close> and \<^verbatim>\<open>b\<close>; the parser
  records the error and returns a tree, and the extraction returns the constraints of \<^verbatim>\<open>f\<close>.
  The Result for \<^verbatim>\<open>function __proto__(a) { }\<close> lacks the record of the one function of the
  file. For \<^verbatim>\<open>function f(s) { s.indexOf("a") == 1e10; }\<close> the loop of line 307 is to make
  \<open>10 ^ 10\<close> rounds: the run neither returns nor raises.
\<close>

theorem tolerated_syntax_error_counterexample:
  "lodash_get sample_tolerated_ast [''errors'']
     = JArr [tolerated_error 32 1 ''Unexpected token b'']
   \<and> constraints (sample_env sample_tolerated_src sample_tolerated_ast) 0 ''subject.js'' =
       Inr [(''f'',
             \<lparr>fr_constraints =
                [(''p'',
                  [Constraint (JStr ''p'') (JNum 4) (JStr ''f'') integer (JStr ''<'') ''p < 5'',
                   Constraint (JStr ''p'') (JNum 6) (JStr ''f'') integer (JStr ''<'') ''p < 5''])],
              fr_params = [JStr ''p'']\<rparr>)]
   \<and> sample_proto_decl \<in> set (visited sample_proto_ast)
   \<and> declared_key sample_proto_decl = Some ''__proto__''
   \<and> constraints (sample_env sample_proto_src sample_proto_ast) 0 ''subject.js'' = Inr []
   \<and> loop_rounds (sample_env sample_loop_src sample_loop_ast) ''1e10'' = None
   \<and> constraints (sample_env sample_loop_src sample_loop_ast) 0 ''subject.js'' = Inl OutOfMemory"
  by code_simp

text \<open>
  C9. Two extractions over the same file, with any two generators of random strings and
  from any two positions in their streams, end alike: with the same error, or with Results
  that have the same functions with the same parameters and, for every parameter, the same
  number of constraints, which are equal one by one in their order, but for the second
  constraint of the fallback for functions of one parameter: two such constraints differ
  at most in the random string their value ends with, and so have the same \<open>ident\<close> and
  kind.
\<close>

theorem structure_independent_of_random_strings:
  "alike (same_result random_tail_only)
     (constraints (env\<lparr>randexp_gen := g\<rparr>) seed' filePath)
     (constraints env seed filePath)"
proof (cases "readFileSync env filePath")
  case (Inl e)
  then show ?thesis by (simp add: constraints_def)
next
  case buf: (Inr buf)
  show ?thesis
  proof (cases "esprima_parse env buf")
    case (Inl e)
    with buf show ?thesis by (simp add: constraints_def)
  next
    case (Inr tree)
    have "alike (\<lambda>t1 t2. same_result random_tail_only (functionConstraints t1)
                            (functionConstraints t2))
            (traverse (visit_node (env\<lparr>randexp_gen := g\<rparr>) buf) tree
               \<lparr>functionConstraints = [], rng = seed'\<rparr>)
            (traverse (visit_node env buf) tree \<lparr>functionConstraints = [], rng = seed\<rparr>)"
      by (rule outer_walk_alike) (simp_all add: same_result_def alist_rel_def)
    then have "alike (same_result random_tail_only)
            (and_then (traverse (visit_node (env\<lparr>randexp_gen := g\<rparr>) buf) tree
                         \<lparr>functionConstraints = [], rng = seed'\<rparr>)
               (\<lambda>s. Inr (own_properties (functionConstraints s))))
            (and_then (traverse (visit_node env buf) tree \<lparr>functionConstraints = [], rng = seed\<rparr>)
               (\<lambda>s. Inr (own_properties (functionConstraints s))))"
      by (rule results_alike)
    with buf Inr show ?thesis
      by (simp add: constraints_def)
  qed
qed

theorem structure_independent_of_random_strings_witness:
  "constraints (sample_env sample_phone_src sample_phone_ast) 0 ''subject.js'' =
     Inr [(''f'',
           \<lparr>fr_constraints =
              [(''x'',
                [Constraint (JStr ''x'')
                   (JStr ([CHR 0x27] @ ''NEQ - '' @ [CHR 0x22] @ ''555'' @ [CHR 0x22] @ [CHR 0x27]))
                   (JStr ''f'') string (JStr ''=='') (''y == '' @ [CHR 0x22] @ ''555'' @ [CHR 0x22]),
                 Constraint (JStr ''x'') (JStr ([CHR 0x22] @ ''5553456789'' @ [CHR 0x22]))
                   (JStr ''f'') string (JStr ''=='') (''y == '' @ [CHR 0x22] @ ''555'' @ [CHR 0x22])])],
            fr_params = [JStr ''x'']\<rparr>)]
   \<and> constraints (sample_env sample_phone_src sample_phone_ast \<lparr>randexp_gen := \<lambda>k. ''9876543210''\<rparr>)
         7 ''subject.js'' =
       Inr [(''f'',
             \<lparr>fr_constraints =
                [(''x'',
                  [Constraint (JStr ''x'')
                     (JStr ([CHR 0x27] @ ''NEQ - '' @ [CHR 0x22] @ ''555'' @ [CHR 0x22] @ [CHR 0x27]))
                     (JStr ''f'') string (JStr ''=='') (''y == '' @ [CHR 0x22] @ ''555'' @ [CHR 0x22]),
                   Constraint (JStr ''x'') (JStr ([CHR 0x22] @ ''5556543210'' @ [CHR 0x22]))
                     (JStr ''f'') string (JStr ''=='') (''y == '' @ [CHR 0x22] @ ''555'' @ [CHR 0x22])])],
              fr_params = [JStr ''x'']\<rparr>)]
   \<and> same_result random_tail_only
         [(''f'',
           \<lparr>fr_constraints =
              [(''x'',
                [Constraint (JStr ''x'')
                   (JStr ([CHR 0x27] @ ''NEQ - '' @ [CHR 0x22] @ ''555'' @ [CHR 0x22] @ [CHR 0x27]))
                   (JStr ''f'') string (JStr ''=='') (''y == '' @ [CHR 0x22] @ ''555'' @ [CHR 0x22]),
                 Constraint (JStr ''x'') (JStr ([CHR 0x22] @ ''5556543210'' @ [CHR 0x22]))
                   (JStr ''f'') string (JStr ''=='') (''y == '' @ [CHR 0x22] @ ''555'' @ [CHR 0x22])])],
            fr_params = [JStr ''x'']\<rparr>)]
         [(''f'',
           \<lparr>fr_constraints =
              [(''x'',
                [Constraint (JStr ''x'')
                   (JStr ([CHR 0x27] @ ''NEQ - '' @ [CHR 0x22] @ ''555'' @ [CHR 0x22] @ [CHR 0x27]))
                   (JStr ''f'') string (JStr ''=='') (''y == '' @ [CHR 0x22] @ ''555'' @ [CHR 0x22]),
                 Constraint (JStr ''x'') (JStr ([CHR 0x22] @ ''5553456789'' @ [CHR 0x22]))
                   (JStr ''f'') string (JStr ''=='') (''y == '' @ [CHR 0x22] @ ''555'' @ [CHR 0x22])])],
            fr_params = [JStr ''x'']\<rparr>)]"
proof -
  let ?c1 = "Constraint (JStr ''x'')
                   (JStr ([CHR 0x27] @ ''NEQ - '' @ [CHR 0x22] @ ''555'' @ [CHR 0x22] @ [CHR 0x27]))
                   (JStr ''f'') string (JStr ''=='') (''y == '' @ [CHR 0x22] @ ''555'' @ [CHR 0x22])"
  let ?A = "[(''f'',
           \<lparr>fr_constraints =
              [(''x'',
                [?c1,
                 Constraint (JStr ''x'') (JStr ([CHR 0x22] @ ''5553456789'' @ [CHR 0x22]))
                   (JStr ''f'') string (JStr ''=='') (''y == '' @ [CHR 0x22] @ ''555'' @ [CHR 0x22])])],
            fr_params = [JStr ''x'']\<rparr>)]"
  let ?B = "[(''f'',
           \<lparr>fr_constraints =
              [(''x'',
                [?c1,
                 Constraint (JStr ''x'') (JStr ([CHR 0x22] @ ''5556543210'' @ [CHR 0x22]))
                   (JStr ''f'') string (JStr ''=='') (''y == '' @ [CHR 0x22] @ ''555'' @ [CHR 0x22])])],
            fr_params = [JStr ''x'']\<rparr>)]"
  have a: "constraints (sample_env sample_phone_src sample_phone_ast) 0 ''subject.js'' = Inr ?A"
    by code_simp
  have b: "constraints (sample_env sample_phone_src sample_phone_ast \<lparr>randexp_gen := \<lambda>k. ''9876543210''\<rparr>)
         7 ''subject.js'' = Inr ?B"
    by code_simp
  have "alike (same_result random_tail_only)
     (constraints (sample_env sample_phone_src sample_phone_ast \<lparr>randexp_gen := \<lambda>k. ''9876543210''\<rparr>)
        7 ''subject.js'')
     (constraints (sample_env sample_phone_src sample_phone_ast) 0 ''subject.js'')"
    by (rule structure_independent_of_random_strings)
  then have c: "same_result random_tail_only ?B ?A"
    unfolding a b by (simp only: alike_simps)
  show ?thesis
    by (intro conjI a b c)
qed

text \<open>
  C10. A comparison with \<^verbatim>\<open><\<close> or \<^verbatim>\<open>>\<close> whose left side is a declared parameter \<open>p\<close> and
  whose right-hand source text does not parse as an integer is not skipped: the visitor
  appends exactly two constraints to the list of \<open>p\<close>, both of kind \<open>integer\<close> and both with
  the value NaN, and changes nothing else.
\<close>

theorem relational_non_integer_gives_nan:
  assumes "get_prop child ''type'' = Inr (JStr ''BinaryExpression'')"
    and "get_prop child ''operator'' = Inr (JStr opr)" and "opr = ''<'' \<or> opr = ''>''"
    and "get_path child [''left'', ''type''] = Inr (JStr ''Identifier'')"
    and "get_path child [''left'', ''name''] = Inr (JStr p)"
    and "JStr p \<in> set params"
    and "range_text buf child = Inr expr" and "right_hand buf child = Inr rightHand"
    and "parseInt rightHand = JNaN"
    and "has_list s fname (JStr p)"
  shows "visit_child env buf fname params child s =
           Inr (pushed fname (JStr p)
                  [Constraint (JStr p) JNaN fname integer (JStr opr) expr,
                   Constraint (JStr p) JNaN fname integer (JStr opr) expr] s)"
  using relational_on_parameter [OF assms(1-8) assms(10), of env] assms(9)
  by (simp add: parseInt_plus_def)

theorem relational_non_integer_gives_nan_witness:
  "get_prop sample_lt_str_node ''type'' = Inr (JStr ''BinaryExpression'')
   \<and> get_prop sample_lt_str_node ''operator'' = Inr (JStr ''<'')
   \<and> get_path sample_lt_str_node [''left'', ''type''] = Inr (JStr ''Identifier'')
   \<and> get_path sample_lt_str_node [''left'', ''name''] = Inr (JStr ''p'')
   \<and> JStr ''p'' \<in> set [JStr ''p'']
   \<and> range_text sample_lt_str_src sample_lt_str_node
       = Inr (''p < '' @ [CHR 0x22] @ ''abc'' @ [CHR 0x22])
   \<and> right_hand sample_lt_str_src sample_lt_str_node = Inr ([CHR 0x22] @ ''abc'' @ [CHR 0x22])
   \<and> parseInt ([CHR 0x22] @ ''abc'' @ [CHR 0x22]) = JNaN
   \<and> has_list (entry_state (JStr ''f'') [JStr ''p'']) (JStr ''f'') (JStr ''p'')
   \<and> visit_child (sample_env sample_lt_str_src sample_lt_str_ast) sample_lt_str_src
         (JStr ''f'') [JStr ''p''] sample_lt_str_node (entry_state (JStr ''f'') [JStr ''p''])
       = Inr (pushed (JStr ''f'') (JStr ''p'')
                [Constraint (JStr ''p'') JNaN (JStr ''f'') integer (JStr ''<'')
                   (''p < '' @ [CHR 0x22] @ ''abc'' @ [CHR 0x22]),
                 Constraint (JStr ''p'') JNaN (JStr ''f'') integer (JStr ''<'')
                   (''p < '' @ [CHR 0x22] @ ''abc'' @ [CHR 0x22])]
                (entry_state (JStr ''f'') [JStr ''p'']))"
proof -
  have h1: "get_prop sample_lt_str_node ''type'' = Inr (JStr ''BinaryExpression'')"
    by code_simp
  have h2: "get_prop sample_lt_str_node ''operator'' = Inr (JStr ''<'')"
    by code_simp
  have h3: "''<'' = ''<'' \<or> ''<'' = ''>''"
    by simp
  have h4: "get_path sample_lt_str_node [''left'', ''type''] = Inr (JStr ''Identifier'')"
    by code_simp
  have h5: "get_path sample_lt_str_node [''left'', ''name''] = Inr (JStr ''p'')"
    by code_simp
  have h6: "JStr ''p'' \<in> set [JStr ''p'']"
    by simp
  have h7: "range_text sample_lt_str_src sample_lt_str_node
            = Inr (''p < '' @ [CHR 0x22] @ ''abc'' @ [CHR 0x22])"
    by code_simp
  have h8: "right_hand sample_lt_str_src sample_lt_str_node = Inr ([CHR 0x22] @ ''abc'' @ [CHR 0x22])"
    by code_simp
  have h9: "parseInt ([CHR 0x22] @ ''abc'' @ [CHR 0x22]) = JNaN"
    by code_simp
  have h10: "has_list (entry_state (JStr ''f'') [JStr ''p'']) (JStr ''f'') (JStr ''p'')"
    by code_simp
  show ?thesis
    by (intro conjI h1 h2 h4 h5 h6 h7 h8 h9 h10
          relational_non_integer_gives_nan [OF h1 h2 h3 h4 h5 h6 h7 h8 h9 h10])
qed


end
